theory Spec2Isabelle
  imports Main
begin

section \<open>Strings of the Go runtime\<close>

text \<open>
  A Go string is a sequence of bytes; \<open>len\<close> counts bytes.  It is modelled as a
  \<^typ>\<open>string\<close>, a list of 8-bit characters.  The functions of this section belong to
  Go's standard library (\<open>strings\<close>, \<open>os\<close>), which the package calls; they are
  modelled after the library's documented behaviour.
\<close>

text \<open>
  \<open>strings.Split(s, sep)\<close> for a separator of one byte (the package only splits on
  \<open>" "\<close> and on \<open>","\<close>): the pieces between the separators, in order; a string without
  separator, the empty one included, is a single piece.
\<close>

fun splitFrom :: "char \<Rightarrow> string \<Rightarrow> string \<Rightarrow> string list" where
  "splitFrom sep cur [] = [cur]"
| "splitFrom sep cur (c # cs) =
     (if c = sep then cur # splitFrom sep [] cs else splitFrom sep (cur @ [c]) cs)"

definition Split :: "string \<Rightarrow> char \<Rightarrow> string list" where
  "Split s sep = splitFrom sep [] s"

text \<open>
  \<open>strings.TrimSpace\<close> removes the leading and the trailing white space, as Unicode
  defines it (\<open>unicode.IsSpace\<close>).  On the bytes of a string these are the UTF-8
  encodings of the code points U+0009 to U+000D, U+0020, U+0085, U+00A0, U+1680,
  U+2000 to U+200A, U+2028, U+2029, U+202F, U+205F and U+3000.  A byte sequence that
  is not one of them, an invalid encoding included, is not white space.
\<close>

definition spaceEncodings :: "string list" where
  "spaceEncodings =
     [[CHR 0x09], [CHR 0x0A], [CHR 0x0B], [CHR 0x0C], [CHR 0x0D], [CHR 0x20],
      [CHR 0xC2, CHR 0x85], [CHR 0xC2, CHR 0xA0],
      [CHR 0xE1, CHR 0x9A, CHR 0x80],
      [CHR 0xE2, CHR 0x80, CHR 0x80], [CHR 0xE2, CHR 0x80, CHR 0x81],
      [CHR 0xE2, CHR 0x80, CHR 0x82], [CHR 0xE2, CHR 0x80, CHR 0x83],
      [CHR 0xE2, CHR 0x80, CHR 0x84], [CHR 0xE2, CHR 0x80, CHR 0x85],
      [CHR 0xE2, CHR 0x80, CHR 0x86], [CHR 0xE2, CHR 0x80, CHR 0x87],
      [CHR 0xE2, CHR 0x80, CHR 0x88], [CHR 0xE2, CHR 0x80, CHR 0x89],
      [CHR 0xE2, CHR 0x80, CHR 0x8A],
      [CHR 0xE2, CHR 0x80, CHR 0xA8], [CHR 0xE2, CHR 0x80, CHR 0xA9],
      [CHR 0xE2, CHR 0x80, CHR 0xAF],
      [CHR 0xE2, CHR 0x81, CHR 0x9F],
      [CHR 0xE3, CHR 0x80, CHR 0x80]]"

text \<open>The width of the encoding, among \<open>encs\<close>, that \<open>s\<close> starts with; 0 when there is none.\<close>

definition matchLen :: "string list \<Rightarrow> string \<Rightarrow> nat" where
  "matchLen encs s =
     (case find (\<lambda>e. e \<noteq> [] \<and> take (length e) s = e) encs of
        None \<Rightarrow> 0
      | Some e \<Rightarrow> length e)"

function stripLeading :: "string list \<Rightarrow> string \<Rightarrow> string" where
  "stripLeading encs s =
     (if matchLen encs s = 0 then s else stripLeading encs (drop (matchLen encs s) s))"
  by pat_completeness auto
termination
proof (relation "measure (\<lambda>(encs, s). length s)")
  show "wf (measure (\<lambda>(encs, s). length s))" by simp
next
  fix encs :: "string list" and s :: string
  assume n: "matchLen encs s \<noteq> 0"
  then obtain e where "find (\<lambda>e. e \<noteq> [] \<and> take (length e) s = e) encs = Some e"
    by (auto simp: matchLen_def split: option.splits)
  then have "e \<noteq> []" "take (length e) s = e"
    by (auto simp: find_Some_iff)
  then have "s \<noteq> []" by auto
  with n show "((encs, drop (matchLen encs s) s), (encs, s)) \<in> measure (\<lambda>(encs, s). length s)"
    by simp
qed

declare stripLeading.simps [simp del]

text \<open>Leading white space goes first, then trailing white space (read from the end).\<close>

definition TrimSpace :: "string \<Rightarrow> string" where
  "TrimSpace s =
     rev (stripLeading (map rev spaceEncodings) (rev (stripLeading spaceEncodings s)))"

text \<open>
  The characters of a string are its runes, the code points of its UTF-8 encoding;
  \<open>utf8.RuneCountInString\<close> counts them.  A rune takes one to four bytes: a leading byte
  and the continuation bytes it calls for, the second byte within the range its
  leading byte allows.  A byte that starts no well-formed encoding counts as one rune
  of one byte.
\<close>

definition isCont :: "char \<Rightarrow> bool" where
  "isCont c = (128 \<le> (of_char c :: nat) \<and> (of_char c :: nat) \<le> 191)"

definition secondByteOk :: "nat \<Rightarrow> char \<Rightarrow> bool" where
  "secondByteOk b0 c =
     (let x = (of_char c :: nat)
      in if b0 = 224 then 160 \<le> x \<and> x \<le> 191
         else if b0 = 237 then 128 \<le> x \<and> x \<le> 159
         else if b0 = 240 then 144 \<le> x \<and> x \<le> 191
         else if b0 = 244 then 128 \<le> x \<and> x \<le> 143
         else 128 \<le> x \<and> x \<le> 191)"

fun runeWidth :: "string \<Rightarrow> nat" where
  "runeWidth [] = 0"
| "runeWidth (c # cs) =
     (let b0 = (of_char c :: nat)
      in if b0 < 128 then 1
         else if 194 \<le> b0 \<and> b0 \<le> 223 then
           (case cs of
              c1 # _ \<Rightarrow> if isCont c1 then 2 else 1
            | _ \<Rightarrow> 1)
         else if 224 \<le> b0 \<and> b0 \<le> 239 then
           (case cs of
              c1 # c2 # _ \<Rightarrow> if secondByteOk b0 c1 \<and> isCont c2 then 3 else 1
            | _ \<Rightarrow> 1)
         else if 240 \<le> b0 \<and> b0 \<le> 244 then
           (case cs of
              c1 # c2 # c3 # _ \<Rightarrow>
                if secondByteOk b0 c1 \<and> isCont c2 \<and> isCont c3 then 4 else 1
            | _ \<Rightarrow> 1)
         else 1)"

function RuneCountInString :: "string \<Rightarrow> nat" where
  "RuneCountInString s =
     (if s = [] then 0 else Suc (RuneCountInString (drop (runeWidth s) s)))"
  by pat_completeness auto
termination
proof (relation "measure length")
  show "wf (measure length)" by simp
next
  fix s :: string
  assume "s \<noteq> []"
  then have "0 < runeWidth s"
    by (cases s) (auto simp: Let_def split: list.splits)
  moreover from \<open>s \<noteq> []\<close> have "0 < length s" by simp
  ultimately show "(drop (runeWidth s) s, s) \<in> measure length" by simp
qed

declare RuneCountInString.simps [simp del]

section \<open>Name derivation (options.go)\<close>

text \<open>
  \<open>mkOptStrs\<close> splits the name specification on spaces and then overwrites the slice in
  place, index by index: the element at \<open>i\<close> becomes its prefix followed by itself,
  the prefix being \<open>--\<close> when \<open>len(name) > 1\<close> and \<open>-\<close> otherwise.  The index is
  always in range, since it runs over the slice itself.
\<close>

definition mkOptStrs_body :: "nat \<Rightarrow> string list \<Rightarrow> string list" where
  "mkOptStrs_body i namesSl =
     (let name = namesSl ! i;
          prefix = (if length name > 1 then ''--'' else ''-'')
      in namesSl[i := prefix @ name])"

definition mkOptStrs :: "string \<Rightarrow> string list" where
  "mkOptStrs optName =
     (let namesSl = Split optName (CHR '' '')
      in fold mkOptStrs_body [0..<length namesSl] namesSl)"

text \<open>
  Name derivation in the words of the specification: one dash for a token of exactly
  one character, two dashes for every other token.  A character is a rune, whatever
  the number of its bytes.
\<close>

definition specPrefix :: "string \<Rightarrow> string" where
  "specPrefix name = (if RuneCountInString name = 1 then ''-'' else ''--'')"

definition mkOptStrs_spec :: "string \<Rightarrow> string list" where
  "mkOptStrs_spec optName = map (\<lambda>name. specPrefix name @ name) (Split optName (CHR '' ''))"

text \<open>What the code prefixes: two dashes for a token longer than one byte, one dash otherwise.\<close>

definition codePrefix :: "string \<Rightarrow> string" where
  "codePrefix name = (if length name > 1 then ''--'' else ''-'')"

section \<open>Parsers of the Go runtime (strconv) and the environment (os)\<close>

text \<open>
  \<open>strconv\<close> reports a failure as a \<open>*NumError\<close>: the function that failed, the text
  it was given, and whether the text is ill-formed or its value out of range.
\<close>

datatype numErr = ErrSyntax | ErrRange

datatype NumError = NumError (Func: string) (Num: string) (Err: numErr)

text \<open>\<open>strconv.ParseBool\<close> accepts twelve spellings and nothing else.\<close>

definition ParseBool :: "string \<Rightarrow> NumError + bool" where
  "ParseBool str =
     (if str \<in> set [''1'', ''t'', ''T'', ''TRUE'', ''true'', ''True''] then Inr True
      else if str \<in> set [''0'', ''f'', ''F'', ''FALSE'', ''false'', ''False''] then Inr False
      else Inl (NumError ''ParseBool'' str ErrSyntax))"

text \<open>
  \<open>strconv.ParseUint(s, 10, 64)\<close>.  The accumulator is a \<open>uint64\<close>: a natural number
  here, with the wrap-around of the multiplication and of the addition written out.  A
  byte that is no digit of the base is a syntax error; a value that does not fit is a
  range error, with the largest \<open>uint64\<close> as the value returned beside it.
\<close>

definition maxUint64 :: nat where
  "maxUint64 = 2 ^ 64 - 1"

definition cutoff64 :: nat where
  "cutoff64 = maxUint64 div 10 + 1"

definition byteValue :: "char \<Rightarrow> nat option" where
  "byteValue d =
     (let c = (of_char d :: nat) in
      if 48 \<le> c \<and> c \<le> 57 then Some (c - 48)
      else if 97 \<le> c \<and> c \<le> 122 then Some (c - 97 + 10)
      else if 65 \<le> c \<and> c \<le> 90 then Some (c - 65 + 10)
      else None)"

fun ParseUint_loop :: "nat \<Rightarrow> string \<Rightarrow> nat \<times> numErr option" where
  "ParseUint_loop n [] = (n, None)"
| "ParseUint_loop n (d # s) =
     (case byteValue d of
        None \<Rightarrow> (0, Some ErrSyntax)
      | Some v \<Rightarrow>
          if v \<ge> 10 then (0, Some ErrSyntax)
          else if n \<ge> cutoff64 then (maxUint64, Some ErrRange)
          else
            let n10 = (n * 10) mod 2 ^ 64;
                n1 = (n10 + v) mod 2 ^ 64
            in if n1 < n10 \<or> n1 > maxUint64 then (maxUint64, Some ErrRange)
               else ParseUint_loop n1 s)"

definition ParseUint :: "string \<Rightarrow> nat \<times> numErr option" where
  "ParseUint s = (if length s < 1 then (0, Some ErrSyntax) else ParseUint_loop 0 s)"

text \<open>The conversion \<open>int64(x)\<close>, and the negation of an \<open>int64\<close>: two's complement on 64 bits.\<close>

definition toInt64 :: "int \<Rightarrow> int" where
  "toInt64 x = (x + 2 ^ 63) mod 2 ^ 64 - 2 ^ 63"

text \<open>
  \<open>strconv.ParseInt(s, 10, 64)\<close>: an optional sign, then \<open>ParseUint\<close> on the rest, then
  the check of the signed range.  The \<open>int64\<close> it returns is the integer it denotes;
  Go's \<open>int\<close> has 64 bits on the platforms considered, so \<open>int(i)\<close> keeps the value.
\<close>

definition ParseInt :: "string \<Rightarrow> NumError + int" where
  "ParseInt s =
     (if length s = 0 then Inl (NumError ''ParseInt'' s ErrSyntax)
      else
        let s0 = s;
            neg = (hd s = CHR ''-'');
            s1 = (if hd s = CHR ''+'' \<or> hd s = CHR ''-'' then tl s else s);
            (un, err) = ParseUint s1
        in if err \<noteq> None \<and> err \<noteq> Some ErrRange then Inl (NumError ''ParseInt'' s0 ErrSyntax)
           else
             let cutoff = (2 ^ 63 :: nat)
             in if \<not> neg \<and> un \<ge> cutoff then Inl (NumError ''ParseInt'' s0 ErrRange)
                else if neg \<and> un > cutoff then Inl (NumError ''ParseInt'' s0 ErrRange)
                else
                  let n = toInt64 (int un)
                  in Inr (if neg then toInt64 (- n) else n))"

text \<open>\<open>os.Getenv\<close>: the value of a variable, the empty string when it is not set.\<close>

definition Getenv :: "(string \<rightharpoonup> string) \<Rightarrow> string \<Rightarrow> string" where
  "Getenv env key = (case env key of None \<Rightarrow> [] | Some v \<Rightarrow> v)"

section \<open>Storage\<close>

text \<open>
  A parameter holds a pointer \<open>into\<close> to a storage slot of the caller.  The slots live
  in a heap with one component per pointee type, as Go's typed pointers never mix them;
  \<open>&newValue\<close> on a fresh local variable allocates the next free slot of its type.
  An \<open>int\<close> slot holds an integer within the 64-bit range.
\<close>

type_synonym addr = nat

record heap =
  boolCells :: "addr \<Rightarrow> bool"
  stringCells :: "addr \<Rightarrow> string"
  intCells :: "addr \<Rightarrow> int"
  stringsCells :: "addr \<Rightarrow> string list"
  intsCells :: "addr \<Rightarrow> int list"
  stringsFree :: addr
  intsFree :: addr

text \<open>
  Each of \<open>boolParam\<close>, \<open>stringParam\<close>, \<open>intParam\<close>, \<open>stringsParam\<close> and \<open>intsParam\<close> is
  a struct with the single field \<open>into\<close>; the method called fixes the pointee type.
  A method has a pointer receiver, so it may change the struct as well as the heap: it
  takes and returns both.
\<close>

record param =
  into :: addr

datatype 'a outcome = Panic string | Returned 'a

section \<open>Parameter kinds (options.go, second part)\<close>

fun boolParam_Set :: "string \<Rightarrow> param \<times> heap \<Rightarrow> NumError option \<times> (param \<times> heap)" where
  "boolParam_Set s (bo, h) =
     (case ParseBool s of
        Inl err \<Rightarrow> (Some err, (bo, h))
      | Inr b \<Rightarrow> (None, (bo, h\<lparr>boolCells := (boolCells h)(into bo := b)\<rparr>)))"

definition boolParam_IsBoolFlag :: "param \<times> heap \<Rightarrow> bool" where
  "boolParam_IsBoolFlag st = True"

text \<open>\<open>fmt.Sprintf("%v", b)\<close> of a boolean is \<open>true\<close> or \<open>false\<close>.\<close>

fun boolParam_String :: "param \<times> heap \<Rightarrow> string" where
  "boolParam_String (bo, h) = (if boolCells h (into bo) then ''true'' else ''false'')"

fun stringParam_Set :: "string \<Rightarrow> param \<times> heap \<Rightarrow> NumError option \<times> (param \<times> heap)" where
  "stringParam_Set s (sa, h) = (None, (sa, h\<lparr>stringCells := (stringCells h)(into sa := s)\<rparr>))"

fun intParam_Set :: "string \<Rightarrow> param \<times> heap \<Rightarrow> NumError option \<times> (param \<times> heap)" where
  "intParam_Set s (ia, h) =
     (case ParseInt s of
        Inl err \<Rightarrow> (Some err, (ia, h))
      | Inr i \<Rightarrow> (None, (ia, h\<lparr>intCells := (intCells h)(into ia := i)\<rparr>)))"

fun stringsParam_Set :: "string \<Rightarrow> param \<times> heap \<Rightarrow> NumError option \<times> (param \<times> heap)" where
  "stringsParam_Set s (sa, h) =
     (None, (sa, h\<lparr>stringsCells := (stringsCells h)(into sa := stringsCells h (into sa) @ [s])\<rparr>))"

definition stringsParam_IsMultiValued :: "param \<times> heap \<Rightarrow> bool" where
  "stringsParam_IsMultiValued st = True"

text \<open>
  \<open>stringsParam.SetMulti\<close> makes a slice of \<open>len(vs)\<close> empty strings, writes the trimmed
  element at each index, and points \<open>into\<close> at the new slice.
\<close>

fun stringsParam_SetMulti ::
  "string list \<Rightarrow> param \<times> heap \<Rightarrow> NumError option \<times> (param \<times> heap)" where
  "stringsParam_SetMulti vs (sa, h) =
     (let newValue = fold (\<lambda>(idx, v) newValue. newValue[idx := TrimSpace v])
                       (enumerate 0 vs) (replicate (length vs) [])
      in (None, (sa\<lparr>into := stringsFree h\<rparr>,
                 h\<lparr>stringsCells := (stringsCells h)(stringsFree h := newValue),
                   stringsFree := Suc (stringsFree h)\<rparr>)))"

fun intsParam_Set :: "string \<Rightarrow> param \<times> heap \<Rightarrow> NumError option \<times> (param \<times> heap)" where
  "intsParam_Set s (ia, h) =
     (case ParseInt s of
        Inl err \<Rightarrow> (Some err, (ia, h))
      | Inr i \<Rightarrow>
          (None, (ia, h\<lparr>intsCells := (intsCells h)(into ia := intsCells h (into ia) @ [i])\<rparr>)))"

definition intsParam_IsMultiValued :: "param \<times> heap \<Rightarrow> bool" where
  "intsParam_IsMultiValued st = True"

text \<open>
  The loop of \<open>intsParam.SetMulti\<close>: trim, skip what is empty, parse, append; the first
  element that does not parse ends the loop with its error.
\<close>

fun intsParam_SetMulti_loop :: "string list \<Rightarrow> int list \<Rightarrow> NumError + int list" where
  "intsParam_SetMulti_loop [] newValue = Inr newValue"
| "intsParam_SetMulti_loop (v # vs) newValue =
     (let v1 = TrimSpace v
      in if v1 = [] then intsParam_SetMulti_loop vs newValue
         else (case ParseInt v1 of
                 Inl err \<Rightarrow> Inl err
               | Inr i \<Rightarrow> intsParam_SetMulti_loop vs (newValue @ [i])))"

fun intsParam_SetMulti ::
  "string list \<Rightarrow> param \<times> heap \<Rightarrow> NumError option \<times> (param \<times> heap)" where
  "intsParam_SetMulti vs (ia, h) =
     (case intsParam_SetMulti_loop vs [] of
        Inl err \<Rightarrow> (Some err, (ia, h))
      | Inr newValue \<Rightarrow>
          (None, (ia\<lparr>into := intsFree h\<rparr>,
                  h\<lparr>intsCells := (intsCells h)(intsFree h := newValue),
                    intsFree := Suc (intsFree h)\<rparr>)))"

section \<open>Repeated arguments (args.go)\<close>

text \<open>
  \<open>StringsArg\<close> and \<open>IntsArg\<close> embed a pointer to the parameter and declare \<open>Set\<close> and
  \<open>SetMulti\<close> again, on the embedded parameter's \<open>into\<close>.
\<close>

fun StringsArg_Set :: "string \<Rightarrow> param \<times> heap \<Rightarrow> NumError option \<times> (param \<times> heap)" where
  "StringsArg_Set s (sa, h) =
     (None, (sa, h\<lparr>stringsCells := (stringsCells h)(into sa := stringsCells h (into sa) @ [s])\<rparr>))"

fun StringsArg_SetMulti ::
  "string list \<Rightarrow> param \<times> heap \<Rightarrow> NumError option \<times> (param \<times> heap)" where
  "StringsArg_SetMulti vs (sa, h) =
     (let newValue = fold (\<lambda>(idx, v) newValue. newValue[idx := TrimSpace v])
                       (enumerate 0 vs) (replicate (length vs) [])
      in (None, (sa\<lparr>into := stringsFree h\<rparr>,
                 h\<lparr>stringsCells := (stringsCells h)(stringsFree h := newValue),
                   stringsFree := Suc (stringsFree h)\<rparr>)))"

fun IntsArg_Set :: "string \<Rightarrow> param \<times> heap \<Rightarrow> NumError option \<times> (param \<times> heap)" where
  "IntsArg_Set s (ia, h) =
     (case ParseInt s of
        Inl err \<Rightarrow> (Some err, (ia, h))
      | Inr i \<Rightarrow>
          (None, (ia, h\<lparr>intsCells := (intsCells h)(into ia := intsCells h (into ia) @ [i])\<rparr>)))"

fun IntsArg_SetMulti_loop :: "string list \<Rightarrow> int list \<Rightarrow> NumError + int list" where
  "IntsArg_SetMulti_loop [] newValue = Inr newValue"
| "IntsArg_SetMulti_loop (v # vs) newValue =
     (let v1 = TrimSpace v
      in if v1 = [] then IntsArg_SetMulti_loop vs newValue
         else (case ParseInt v1 of
                 Inl err \<Rightarrow> Inl err
               | Inr i \<Rightarrow> IntsArg_SetMulti_loop vs (newValue @ [i])))"

fun IntsArg_SetMulti ::
  "string list \<Rightarrow> param \<times> heap \<Rightarrow> NumError option \<times> (param \<times> heap)" where
  "IntsArg_SetMulti vs (ia, h) =
     (case IntsArg_SetMulti_loop vs [] of
        Inl err \<Rightarrow> (Some err, (ia, h))
      | Inr newValue \<Rightarrow>
          (None, (ia\<lparr>into := intsFree h\<rparr>,
                  h\<lparr>intsCells := (intsCells h)(intsFree h := newValue),
                    intsFree := Suc (intsFree h)\<rparr>)))"

section \<open>Values behind the \<open>flag.Value\<close> interface\<close>

text \<open>
  \<open>setFromEnv\<close> and the \<open>Var\<close> kinds receive a \<open>flag.Value\<close>: a value of any type with a
  \<open>Set\<close> method, whose further methods are found by a type assertion.  Such a value is
  modelled by its methods over the state \<open>'s\<close> they read and change; \<open>'e\<close> is the type of
  its errors.  The assertion \<open>v.(multiValued)\<close> gives the two methods of that interface
  when the type has them; \<open>v.(boolValued)\<close> likewise.  \<open>String\<close> is left out: none of
  the functions modelled below calls it through the interface.
\<close>

record ('s, 'e) multiValued =
  IsMultiValued :: "'s \<Rightarrow> bool"
  SetMulti :: "string list \<Rightarrow> 's \<Rightarrow> 'e option \<times> 's"

record ('s, 'e) flagValue =
  Set_method :: "string \<Rightarrow> 's \<Rightarrow> 'e option \<times> 's"
  asBoolValued :: "('s \<Rightarrow> bool) option"
  asMultiValued :: "('s, 'e) multiValued option"

text \<open>The five parameter kinds of the package, as values behind the interface.\<close>

definition boolParam_Value :: "(param \<times> heap, NumError) flagValue" where
  "boolParam_Value =
     \<lparr>Set_method = boolParam_Set, asBoolValued = Some boolParam_IsBoolFlag, asMultiValued = None\<rparr>"

definition stringParam_Value :: "(param \<times> heap, NumError) flagValue" where
  "stringParam_Value =
     \<lparr>Set_method = stringParam_Set, asBoolValued = None, asMultiValued = None\<rparr>"

definition intParam_Value :: "(param \<times> heap, NumError) flagValue" where
  "intParam_Value =
     \<lparr>Set_method = intParam_Set, asBoolValued = None, asMultiValued = None\<rparr>"

definition stringsParam_Value :: "(param \<times> heap, NumError) flagValue" where
  "stringsParam_Value =
     \<lparr>Set_method = stringsParam_Set, asBoolValued = None,
      asMultiValued = Some \<lparr>IsMultiValued = stringsParam_IsMultiValued,
                             SetMulti = stringsParam_SetMulti\<rparr>\<rparr>"

definition intsParam_Value :: "(param \<times> heap, NumError) flagValue" where
  "intsParam_Value =
     \<lparr>Set_method = intsParam_Set, asBoolValued = None,
      asMultiValued = Some \<lparr>IsMultiValued = intsParam_IsMultiValued,
                             SetMulti = intsParam_SetMulti\<rparr>\<rparr>"

section \<open>Environment fallback (utils.go)\<close>

text \<open>
  The loop of \<open>setFromEnv\<close> over the pieces of the name list.  \<open>return\<close> inside the loop
  ends the function; \<open>continue\<close> goes to the next piece.  The argument \<open>into\<close> of the
  source is \<open>into'\<close> here, \<open>into\<close> being the field of the parameters.  When \<open>isMulti\<close> holds the
  loop calls \<open>SetMulti\<close> on the result of the type assertion, which would be a nil
  interface, and the call a run-time panic, had the assertion failed.
\<close>

fun setFromEnv_loop ::
  "('s, 'e) flagValue \<Rightarrow> bool \<Rightarrow> (string \<rightharpoonup> string) \<Rightarrow> string list \<Rightarrow> 's \<Rightarrow> 's outcome" where
  "setFromEnv_loop into' isMulti env [] s = Returned s"
| "setFromEnv_loop into' isMulti env (rawEv # rawEvs) s =
     (let ev = TrimSpace rawEv
      in if length ev = 0 then setFromEnv_loop into' isMulti env rawEvs s
         else
           let v = Getenv env ev
           in if length v = 0 then setFromEnv_loop into' isMulti env rawEvs s
              else if \<not> isMulti then
                (case Set_method into' v s of
                   (None, s1) \<Rightarrow> Returned s1
                 | (Some err, s1) \<Rightarrow> setFromEnv_loop into' isMulti env rawEvs s1)
              else
                let vs = Split v (CHR '','')
                in (case asMultiValued into' of
                      None \<Rightarrow> Panic ''invalid memory address or nil pointer dereference''
                    | Some mv \<Rightarrow>
                        (case SetMulti mv vs s of
                           (None, s1) \<Rightarrow> Returned s1
                         | (Some err, s1) \<Rightarrow> setFromEnv_loop into' isMulti env rawEvs s1)))"

definition setFromEnv ::
  "('s, 'e) flagValue \<Rightarrow> string \<Rightarrow> (string \<rightharpoonup> string) \<Rightarrow> 's \<Rightarrow> 's outcome" where
  "setFromEnv into' envVars env s =
     (let isMulti = (case asMultiValued into' of
                       None \<Rightarrow> False
                     | Some mv \<Rightarrow> IsMultiValued mv s)
      in if length envVars > 0
         then setFromEnv_loop into' isMulti env (Split envVars (CHR '' '')) s
         else Returned s)"

section \<open>The \<open>Var\<close> kinds (options.go, args.go)\<close>

text \<open>
  \<open>VarOpt\<close> and \<open>VarArg\<close> wrap a \<open>flag.Value\<close> of the caller.  Their \<open>SetMulti\<close> panics
  unless the wrapped value asserts to \<open>multiValued\<close> and reports to be multi-valued.
  The two structs declare the same fields (the embedded \<open>VarParam\<close>, which no method
  below reads, is left out), so one record stands for both.
\<close>

record ('s, 'e) VarOpt =
  Name :: string
  Desc :: string
  EnvVar :: string
  Value :: "('s, 'e) flagValue"
  HideValue :: bool

type_synonym ('s, 'e) VarArg = "('s, 'e) VarOpt"

definition VarOpt_Set :: "('s, 'e) VarOpt \<Rightarrow> string \<Rightarrow> 's \<Rightarrow> 'e option \<times> 's" where
  "VarOpt_Set vo s st = Set_method (Value vo) s st"

definition VarOpt_IsMultiValued :: "('s, 'e) VarOpt \<Rightarrow> 's \<Rightarrow> bool" where
  "VarOpt_IsMultiValued vo st =
     (case asMultiValued (Value vo) of
        Some bf \<Rightarrow> IsMultiValued bf st
      | None \<Rightarrow> False)"

definition VarOpt_SetMulti ::
  "('s, 'e) VarOpt \<Rightarrow> string list \<Rightarrow> 's \<Rightarrow> ('e option \<times> 's) outcome" where
  "VarOpt_SetMulti vo vs st =
     (case asMultiValued (Value vo) of
        None \<Rightarrow> Panic ''Bug''
      | Some mv \<Rightarrow>
          if \<not> IsMultiValued mv st then Panic ''Bug''
          else Returned (SetMulti mv vs st))"

definition VarArg_Set :: "('s, 'e) VarArg \<Rightarrow> string \<Rightarrow> 's \<Rightarrow> 'e option \<times> 's" where
  "VarArg_Set va s st = Set_method (Value va) s st"

definition VarArg_IsMultiValued :: "('s, 'e) VarArg \<Rightarrow> 's \<Rightarrow> bool" where
  "VarArg_IsMultiValued va st =
     (case asMultiValued (Value va) of
        Some bf \<Rightarrow> IsMultiValued bf st
      | None \<Rightarrow> False)"

definition VarArg_SetMulti ::
  "('s, 'e) VarArg \<Rightarrow> string list \<Rightarrow> 's \<Rightarrow> ('e option \<times> 's) outcome" where
  "VarArg_SetMulti va vs st =
     (case asMultiValued (Value va) of
        None \<Rightarrow> Panic ''Bug''
      | Some mv \<Rightarrow>
          if \<not> IsMultiValued mv st then Panic ''Bug''
          else Returned (SetMulti mv vs st))"

section \<open>Notions used to state the results\<close>

text \<open>A heap whose slots hold the zero value of their type, slot 0 of each slice type allocated.\<close>

definition zeroHeap :: heap where
  "zeroHeap =
     \<lparr>boolCells = (\<lambda>a. False), stringCells = (\<lambda>a. []), intCells = (\<lambda>a. 0),
      stringsCells = (\<lambda>a. []), intsCells = (\<lambda>a. []), stringsFree = 1, intsFree = 1\<rparr>"

text \<open>The elements of a batch after trimming, without those that became empty.\<close>

definition trimmedNonEmpty :: "string list \<Rightarrow> string list" where
  "trimmedNonEmpty vs = filter (\<lambda>v. v \<noteq> []) (map TrimSpace vs)"

text \<open>
  A base-10 signed integer in the words of the specification: an optional sign, then one
  digit or more (leading zeros allowed), denoting a value that fits 64 bits signed.
  \<open>base10_spec\<close> gives the value of such a text and \<open>None\<close> for every other text.
\<close>

definition isDigit :: "char \<Rightarrow> bool" where
  "isDigit c = (48 \<le> (of_char c :: nat) \<and> (of_char c :: nat) \<le> 57)"

definition digitsValue :: "string \<Rightarrow> nat" where
  "digitsValue ds = foldl (\<lambda>n d. 10 * n + (of_char d - 48)) 0 ds"

definition base10_spec :: "string \<Rightarrow> int option" where
  "base10_spec s =
     (let neg = (s \<noteq> [] \<and> hd s = CHR ''-'');
          ds = (if s \<noteq> [] \<and> (hd s = CHR ''+'' \<or> hd s = CHR ''-'') then tl s else s);
          n = (if neg then - int (digitsValue ds) else int (digitsValue ds))
      in if ds \<noteq> [] \<and> list_all isDigit ds \<and> - (2 ^ 63) \<le> n \<and> n < 2 ^ 63
         then Some n else None)"

text \<open>What \<open>ParseInt\<close> does once the sign has been read: the body of its \<open>else\<close> branch.\<close>

definition afterSign :: "string \<Rightarrow> bool \<Rightarrow> string \<Rightarrow> NumError + int" where
  "afterSign s0 neg s1 =
     (let (un, err) = ParseUint s1
      in if err \<noteq> None \<and> err \<noteq> Some ErrRange then Inl (NumError ''ParseInt'' s0 ErrSyntax)
         else
           let cutoff = (2 ^ 63 :: nat)
           in if \<not> neg \<and> un \<ge> cutoff then Inl (NumError ''ParseInt'' s0 ErrRange)
              else if neg \<and> un > cutoff then Inl (NumError ''ParseInt'' s0 ErrRange)
              else
                let n = toInt64 (int un)
                in Inr (if neg then toInt64 (- n) else n))"

text \<open>
  The candidate names of a list of environment variables: its pieces between spaces,
  trimmed, the empty ones dropped; and the values of the candidates that have one.
\<close>

definition envNames :: "string \<Rightarrow> string list" where
  "envNames envVars = filter (\<lambda>ev. ev \<noteq> []) (map TrimSpace (Split envVars (CHR '' '')))"

definition envValues :: "(string \<rightharpoonup> string) \<Rightarrow> string \<Rightarrow> string list" where
  "envValues env envVars = filter (\<lambda>v. v \<noteq> []) (map (Getenv env) (envNames envVars))"

text \<open>
  What \<open>setFromEnv\<close> computes first, and the call it makes for the value of a candidate:
  \<open>Set\<close> on the value, or \<open>SetMulti\<close> on its pieces between commas when \<open>isMulti\<close>
  holds.  (\<open>isMulti\<close> only holds when the type assertion succeeded, so the last branch
  is never taken where \<open>envCall\<close> is used.)
\<close>

definition isMultiOf :: "('s, 'e) flagValue \<Rightarrow> 's \<Rightarrow> bool" where
  "isMultiOf into' s =
     (case asMultiValued into' of None \<Rightarrow> False | Some mv \<Rightarrow> IsMultiValued mv s)"

definition envCall :: "('s, 'e) flagValue \<Rightarrow> bool \<Rightarrow> string \<Rightarrow> 's \<Rightarrow> 'e option \<times> 's" where
  "envCall into' isMulti v s =
     (if \<not> isMulti then Set_method into' v s
      else (case asMultiValued into' of
              Some mv \<Rightarrow> SetMulti mv (Split v (CHR '','')) s
            | None \<Rightarrow> Set_method into' v s))"

text \<open>
  The contract of \<open>Set\<close> and \<open>SetMulti\<close>: a call that returns an error leaves the state
  as it was.
\<close>

definition keepsOnError :: "('s, 'e) flagValue \<Rightarrow> bool" where
  "keepsOnError into' \<longleftrightarrow>
     (\<forall>v s err s1. Set_method into' v s = (Some err, s1) \<longrightarrow> s1 = s)
     \<and> (\<forall>mv vs s err s1. asMultiValued into' = Some mv \<longrightarrow>
            SetMulti mv vs s = (Some err, s1) \<longrightarrow> s1 = s)"

text \<open>A text made of white space only: a sequence of encodings of white space.\<close>

definition blank :: "string \<Rightarrow> bool" where
  "blank s \<longleftrightarrow> (\<exists>ws. s = concat ws \<and> set ws \<subseteq> set spaceEncodings)"

text \<open>A run of \<open>Set\<close> calls, one per token, whatever each returns.\<close>

definition SetAll :: "(string \<Rightarrow> 's \<Rightarrow> 'e option \<times> 's) \<Rightarrow> string list \<Rightarrow> 's \<Rightarrow> 's" where
  "SetAll set_method xs s = fold (\<lambda>x st. snd (set_method x st)) xs s"

section \<open>Evaluation of the library functions\<close>

lemmas TrimSpace_eval = TrimSpace_def spaceEncodings_def matchLen_def stripLeading.simps

lemmas ParseInt_eval = ParseInt_def ParseUint_def byteValue_def cutoff64_def maxUint64_def
  toInt64_def Let_def

lemmas base10_eval = base10_spec_def digitsValue_def isDigit_def Let_def

lemmas rune_eval = RuneCountInString.simps isCont_def secondByteOk_def Let_def

section \<open>Name derivation: results\<close>

lemma mkOptStrs_body_fold:
  "n \<le> length xs \<Longrightarrow>
   fold mkOptStrs_body [0..<n] xs = map (\<lambda>name. codePrefix name @ name) (take n xs) @ drop n xs"
proof (induction n)
  case 0
  then show ?case by simp
next
  case (Suc n)
  then have n: "n < length xs" by simp
  have "fold mkOptStrs_body [0..<Suc n] xs = mkOptStrs_body n (fold mkOptStrs_body [0..<n] xs)"
    by simp
  also have "\<dots> = mkOptStrs_body n (map (\<lambda>name. codePrefix name @ name) (take n xs) @ drop n xs)"
    using Suc by simp
  also have "\<dots> = map (\<lambda>name. codePrefix name @ name) (take (Suc n) xs) @ drop (Suc n) xs"
    using n
    by (simp add: mkOptStrs_body_def codePrefix_def Let_def nth_append list_update_append
        take_Suc_conv_app_nth Cons_nth_drop_Suc [symmetric])
  finally show ?case .
qed

lemma mkOptStrs_map:
  "mkOptStrs optName = map (\<lambda>name. codePrefix name @ name) (Split optName (CHR '' ''))"
  by (simp add: mkOptStrs_def Let_def mkOptStrs_body_fold)

lemma runeWidth_pos: "s \<noteq> [] \<Longrightarrow> 0 < runeWidth s"
  by (cases s) (auto simp: Let_def split: list.splits)

lemma RuneCountInString_le: "RuneCountInString s \<le> length s"
proof (induction s rule: RuneCountInString.induct)
  case (1 s)
  show ?case
  proof (cases "s = []")
    case True
    then show ?thesis by (simp add: RuneCountInString.simps)
  next
    case False
    then have "0 < runeWidth s" by (rule runeWidth_pos)
    with False 1 have "RuneCountInString (drop (runeWidth s) s) < length s"
      by (cases s) (auto simp: less_Suc_eq_le intro: le_trans)
    with False show ?thesis by (simp add: RuneCountInString.simps [of s])
  qed
qed

text \<open>
  Claim C4, as the code has it.  Name derivation splits the specification on spaces
  and gives one result per token, in input order: the token behind one dash when it
  is empty or is one character of one byte, the token behind two dashes when it has
  two characters or more.  The three examples of the specification hold:
  \<open>"f force"\<close> gives \<open>["-f", "--force"]\<close>, \<open>"x"\<close> gives \<open>["-x"]\<close> and \<open>"verbose v"\<close>
  gives \<open>["--verbose", "-v"]\<close>.  Nothing is stated about a token that is one character
  of several bytes.
\<close>

theorem mkOptStrs_prefixes:
  "length (mkOptStrs optName) = length (Split optName (CHR '' ''))
   \<and> (\<forall>i < length (Split optName (CHR '' '')).
        (length (Split optName (CHR '' '') ! i) \<le> 1 \<longrightarrow>
           mkOptStrs optName ! i = ''-'' @ Split optName (CHR '' '') ! i)
        \<and> (2 \<le> RuneCountInString (Split optName (CHR '' '') ! i) \<longrightarrow>
           mkOptStrs optName ! i = ''--'' @ Split optName (CHR '' '') ! i))
   \<and> mkOptStrs ''f force'' = [''-f'', ''--force'']
   \<and> mkOptStrs ''x'' = [''-x'']
   \<and> mkOptStrs ''verbose v'' = [''--verbose'', ''-v'']"
proof (intro conjI allI impI)
  show "length (mkOptStrs optName) = length (Split optName (CHR '' ''))"
    by (simp add: mkOptStrs_map)
next
  fix i
  assume "i < length (Split optName (CHR '' ''))" "length (Split optName (CHR '' '') ! i) \<le> 1"
  then show "mkOptStrs optName ! i = ''-'' @ Split optName (CHR '' '') ! i"
    by (simp add: mkOptStrs_map codePrefix_def)
next
  fix i
  assume i: "i < length (Split optName (CHR '' ''))"
    and two: "2 \<le> RuneCountInString (Split optName (CHR '' '') ! i)"
  from two RuneCountInString_le [of "Split optName (CHR '' '') ! i"]
  have "1 < length (Split optName (CHR '' '') ! i)" by simp
  with i show "mkOptStrs optName ! i = ''--'' @ Split optName (CHR '' '') ! i"
    by (simp add: mkOptStrs_map codePrefix_def)
qed (simp_all add: mkOptStrs_map codePrefix_def Split_def)

theorem mkOptStrs_prefixes_witness:
  "Split ''f force'' (CHR '' '') = [''f'', ''force'']
   \<and> length ''f'' \<le> 1
   \<and> mkOptStrs ''f force'' ! 0 = ''-f''
   \<and> 2 \<le> RuneCountInString ''force''
   \<and> mkOptStrs ''f force'' ! 1 = ''--force''
   \<and> Split [] (CHR '' '') = [[]]
   \<and> mkOptStrs [] ! 0 = ''-''"
proof -
  have sp: "Split ''f force'' (CHR '' '') = [''f'', ''force'']" "Split [] (CHR '' '') = [[]]"
    by (simp_all add: Split_def)
  have rc: "2 \<le> RuneCountInString ''force''" by (simp add: rune_eval)
  note at = mkOptStrs_prefixes [THEN conjunct2, THEN conjunct1, THEN spec, THEN mp]
  have i0: "0 < length (Split ''f force'' (CHR '' ''))" "1 < length (Split ''f force'' (CHR '' ''))"
    "0 < length (Split [] (CHR '' ''))"
    by (simp_all add: sp)
  have a: "mkOptStrs ''f force'' ! 0 = ''-f''"
    using at [OF i0(1), THEN conjunct1] by (simp add: sp)
  have b: "mkOptStrs ''f force'' ! 1 = ''--force''"
    using at [OF i0(2), THEN conjunct2] rc by (simp add: sp)
  have c: "mkOptStrs [] ! 0 = ''-''"
    using at [OF i0(3), THEN conjunct1] by (simp add: sp)
  from sp rc a b c show ?thesis by simp
qed

text \<open>
  Claim C4, as the specification words it, fails on the empty name specification: its
  only token is empty, the code gives it one dash, the specification two.
\<close>

theorem mkOptStrs_empty_token_counterexample:
  "mkOptStrs [] = [''-''] \<and> mkOptStrs_spec [] = [''--''] \<and> mkOptStrs [] \<noteq> mkOptStrs_spec []"
  by (simp add: mkOptStrs_map mkOptStrs_spec_def codePrefix_def specPrefix_def Split_def
      rune_eval)

text \<open>
  \<open>len\<close> counts bytes, so the code gives two dashes to a name of one letter that takes
  two bytes, such as U+00E9, where the comment on the \<open>Name\<close> fields gives a single
  dash to the one-letter names.
\<close>

lemma mkOptStrs_two_byte_letter:
  "RuneCountInString [CHR 0xC3, CHR 0xA9] = 1
   \<and> mkOptStrs [CHR 0xC3, CHR 0xA9] = [[CHR ''-'', CHR ''-'', CHR 0xC3, CHR 0xA9]]"
  by (simp add: mkOptStrs_map codePrefix_def Split_def rune_eval)

section \<open>Repeated parameters: results\<close>

lemma fold_update_enumerate:
  "n + length vs \<le> length xs \<Longrightarrow>
   fold (\<lambda>(idx, v) newValue. newValue[idx := f v]) (enumerate n vs) xs =
   take n xs @ map f vs @ drop (n + length vs) xs"
proof (induction vs arbitrary: n xs)
  case Nil
  then show ?case by simp
next
  case (Cons v vs)
  then have len: "Suc n + length vs \<le> length (xs[n := f v])" by simp
  have "fold (\<lambda>(idx, v) newValue. newValue[idx := f v]) (enumerate n (v # vs)) xs =
        fold (\<lambda>(idx, v) newValue. newValue[idx := f v]) (enumerate (Suc n) vs) (xs[n := f v])"
    by simp
  also have "\<dots> = take (Suc n) (xs[n := f v]) @ map f vs @ drop (Suc n + length vs) (xs[n := f v])"
    by (rule Cons.IH [OF len])
  also have "\<dots> = take n xs @ map f (v # vs) @ drop (n + length (v # vs)) xs"
    using Cons.prems by (simp add: take_Suc_conv_app_nth)
  finally show ?case .
qed

lemma trimmed_batch:
  "fold (\<lambda>(idx, v) newValue. newValue[idx := TrimSpace v]) (enumerate 0 vs)
     (replicate (length vs) []) = map TrimSpace vs"
  using fold_update_enumerate [of 0 vs "replicate (length vs) []" TrimSpace] by simp

lemma intsParam_SetMulti_loop_Inr:
  "map ParseInt (trimmedNonEmpty vs) = map Inr ns \<Longrightarrow>
   intsParam_SetMulti_loop vs acc = Inr (acc @ ns)"
proof (induction vs arbitrary: acc ns)
  case Nil
  then show ?case by (simp add: trimmedNonEmpty_def)
next
  case (Cons v vs)
  show ?case
  proof (cases "TrimSpace v = []")
    case True
    with Cons show ?thesis by (simp add: trimmedNonEmpty_def)
  next
    case False
    with Cons.prems obtain i js where "ns = i # js" "ParseInt (TrimSpace v) = Inr i"
      "map ParseInt (trimmedNonEmpty vs) = map Inr js"
      by (cases ns) (auto simp: trimmedNonEmpty_def)
    with False Cons.IH [of js "acc @ [i]"] show ?thesis by simp
  qed
qed

lemma intsParam_SetMulti_loop_Inl:
  "\<exists>v \<in> set (trimmedNonEmpty vs). isl (ParseInt v) \<Longrightarrow>
   \<exists>err. intsParam_SetMulti_loop vs acc = Inl err"
proof (induction vs arbitrary: acc)
  case Nil
  then show ?case by (simp add: trimmedNonEmpty_def)
next
  case (Cons v vs)
  show ?case
  proof (cases "TrimSpace v = []")
    case True
    with Cons show ?thesis by (simp add: trimmedNonEmpty_def)
  next
    case False
    show ?thesis
    proof (cases "ParseInt (TrimSpace v)")
      case (Inl err)
      with False show ?thesis by simp
    next
      case (Inr i)
      with False Cons.prems have "\<exists>v \<in> set (trimmedNonEmpty vs). isl (ParseInt v)"
        by (auto simp: trimmedNonEmpty_def)
      with Cons.IH [of "acc @ [i]"] False Inr show ?thesis by simp
    qed
  qed
qed

lemma IntsArg_loop_same: "IntsArg_SetMulti_loop vs acc = intsParam_SetMulti_loop vs acc"
  by (induction vs arbitrary: acc) (simp_all add: Let_def split: sum.splits)

text \<open>
  Claim C1.  \<open>SetMulti\<close> of a repeated-integer parameter (and of \<open>IntsArg\<close>) trims every
  element and skips those that become empty.  If one of the remaining elements does not
  parse as a base-10 integer, the call returns an error and leaves the parameter and
  the whole heap as they were.  If they all parse, to the integers \<open>ns\<close> in input
  order, the call succeeds and the parameter's sequence is \<open>ns\<close>.
\<close>

theorem intsParam_SetMulti_atomic:
  "((\<exists>v \<in> set (trimmedNonEmpty vs). isl (ParseInt v)) \<longrightarrow>
      (\<exists>err. intsParam_SetMulti vs (ia, h) = (Some err, (ia, h))
           \<and> IntsArg_SetMulti vs (ia, h) = (Some err, (ia, h))))
   \<and> (map ParseInt (trimmedNonEmpty vs) = map Inr ns \<longrightarrow>
      intsParam_SetMulti vs (ia, h) =
        (None, (ia\<lparr>into := intsFree h\<rparr>,
                h\<lparr>intsCells := (intsCells h)(intsFree h := ns),
                  intsFree := Suc (intsFree h)\<rparr>))
      \<and> IntsArg_SetMulti vs (ia, h) = intsParam_SetMulti vs (ia, h)
      \<and> intsCells (snd (snd (intsParam_SetMulti vs (ia, h))))
            (into (fst (snd (intsParam_SetMulti vs (ia, h))))) = ns)"
proof (intro conjI impI)
  assume "\<exists>v \<in> set (trimmedNonEmpty vs). isl (ParseInt v)"
  then obtain err where "intsParam_SetMulti_loop vs [] = Inl err"
    using intsParam_SetMulti_loop_Inl by blast
  then show "\<exists>err. intsParam_SetMulti vs (ia, h) = (Some err, (ia, h))
           \<and> IntsArg_SetMulti vs (ia, h) = (Some err, (ia, h))"
    by (simp add: IntsArg_loop_same)
next
  assume ok: "map ParseInt (trimmedNonEmpty vs) = map Inr ns"
  then have loop: "intsParam_SetMulti_loop vs [] = Inr ns"
    using intsParam_SetMulti_loop_Inr [of vs ns "[]"] by simp
  then show "intsParam_SetMulti vs (ia, h) =
        (None, (ia\<lparr>into := intsFree h\<rparr>,
                h\<lparr>intsCells := (intsCells h)(intsFree h := ns),
                  intsFree := Suc (intsFree h)\<rparr>))"
    by simp
  show "IntsArg_SetMulti vs (ia, h) = intsParam_SetMulti vs (ia, h)"
    by (simp add: IntsArg_loop_same)
  from loop show "intsCells (snd (snd (intsParam_SetMulti vs (ia, h))))
            (into (fst (snd (intsParam_SetMulti vs (ia, h))))) = ns"
    by simp
qed

theorem intsParam_SetMulti_atomic_witness:
  "(\<exists>v \<in> set (trimmedNonEmpty [''1'', ''a'']). isl (ParseInt v))
   \<and> (\<exists>err. intsParam_SetMulti [''1'', ''a''] (\<lparr>into = 0\<rparr>, zeroHeap) = (Some err, (\<lparr>into = 0\<rparr>, zeroHeap)))
   \<and> map ParseInt (trimmedNonEmpty [''1'', ''  '', ''2'']) = map Inr [1, 2]
   \<and> intsCells (snd (snd (intsParam_SetMulti [''1'', ''  '', ''2''] (\<lparr>into = 0\<rparr>, zeroHeap))))
        (into (fst (snd (intsParam_SetMulti [''1'', ''  '', ''2''] (\<lparr>into = 0\<rparr>, zeroHeap))))) = [1, 2]"
proof -
  have bad: "\<exists>v \<in> set (trimmedNonEmpty [''1'', ''a'']). isl (ParseInt v)"
    by (simp add: trimmedNonEmpty_def TrimSpace_eval ParseInt_eval)
  have good: "map ParseInt (trimmedNonEmpty [''1'', ''  '', ''2'']) = map Inr [1, 2]"
    by (simp add: trimmedNonEmpty_def TrimSpace_eval ParseInt_eval)
  from bad good
    intsParam_SetMulti_atomic [where vs = "[''1'', ''a'']" and ia = "\<lparr>into = 0\<rparr>" and h = zeroHeap]
    intsParam_SetMulti_atomic [where vs = "[''1'', ''  '', ''2'']" and ns = "[1, 2]"
      and ia = "\<lparr>into = 0\<rparr>" and h = zeroHeap]
  show ?thesis by blast
qed

section \<open>Boolean parameters: results\<close>

text \<open>
  Claim C6.  When the text is a boolean literal, of value \<open>b\<close>, \<open>Set\<close> of a boolean
  parameter succeeds, stores \<open>b\<close>, and \<open>String\<close> then gives \<open>true\<close> or \<open>false\<close> accordingly.
  When the text is no boolean literal, \<open>Set\<close> fails with the parser's error and
  changes nothing.
\<close>

theorem boolParam_Set_String:
  "(ParseBool s = Inr b \<longrightarrow>
      boolParam_Set s (bo, h) = (None, (bo, h\<lparr>boolCells := (boolCells h)(into bo := b)\<rparr>))
      \<and> boolParam_String (snd (boolParam_Set s (bo, h))) = (if b then ''true'' else ''false''))
   \<and> (ParseBool s = Inl err \<longrightarrow> boolParam_Set s (bo, h) = (Some err, (bo, h)))"
  by simp

theorem boolParam_Set_String_witness:
  "ParseBool ''T'' = Inr True
   \<and> boolParam_String (snd (boolParam_Set ''T'' (\<lparr>into = 0\<rparr>, zeroHeap))) = ''true''
   \<and> ParseBool ''0'' = Inr False
   \<and> boolParam_String (snd (boolParam_Set ''0'' (\<lparr>into = 0\<rparr>, zeroHeap))) = ''false''
   \<and> ParseBool ''yes'' = Inl (NumError ''ParseBool'' ''yes'' ErrSyntax)
   \<and> boolParam_Set ''yes'' (\<lparr>into = 0\<rparr>, zeroHeap)
       = (Some (NumError ''ParseBool'' ''yes'' ErrSyntax), (\<lparr>into = 0\<rparr>, zeroHeap))"
proof -
  have t: "ParseBool ''T'' = Inr True" by (simp add: ParseBool_def)
  have f: "ParseBool ''0'' = Inr False" by (simp add: ParseBool_def)
  have e: "ParseBool ''yes'' = Inl (NumError ''ParseBool'' ''yes'' ErrSyntax)"
    by (simp add: ParseBool_def)
  from t f e
    boolParam_Set_String [where s = "''T''" and b = True and bo = "\<lparr>into = 0\<rparr>" and h = zeroHeap]
    boolParam_Set_String [where s = "''0''" and b = False and bo = "\<lparr>into = 0\<rparr>" and h = zeroHeap]
    boolParam_Set_String [where s = "''yes''" and bo = "\<lparr>into = 0\<rparr>" and h = zeroHeap
      and err = "NumError ''ParseBool'' ''yes'' ErrSyntax"]
  show ?thesis by metis
qed

section \<open>Integer parameters: results\<close>

lemma byteValue_digit: "isDigit d \<Longrightarrow> byteValue d = Some (of_char d - 48)"
  by (simp add: isDigit_def byteValue_def Let_def)

lemma byteValue_nondigit:
  "\<not> isDigit d \<Longrightarrow> byteValue d = None \<or> (\<exists>v. byteValue d = Some v \<and> v \<ge> 10)"
  by (auto simp: isDigit_def byteValue_def Let_def)

lemma digit_bound: "isDigit d \<Longrightarrow> (of_char d :: nat) - 48 < 10"
  by (auto simp: isDigit_def)

lemma foldl_digits_ge: "n \<le> foldl (\<lambda>n d. 10 * n + (of_char d - 48)) (n::nat) ds"
proof (induction ds arbitrary: n)
  case Nil
  show ?case by simp
next
  case (Cons d ds)
  have "n \<le> 10 * n + (of_char d - 48)" by simp
  also have "\<dots> \<le> foldl (\<lambda>n d. 10 * n + (of_char d - 48)) (10 * n + (of_char d - 48)) ds"
    by (rule Cons.IH)
  finally show ?case by simp
qed

lemma ParseUint_loop_digits:
  "list_all isDigit ds \<Longrightarrow> n < 2 ^ 64 \<Longrightarrow>
   ParseUint_loop n ds =
     (if foldl (\<lambda>n d. 10 * n + (of_char d - 48)) n ds < 2 ^ 64
      then (foldl (\<lambda>n d. 10 * n + (of_char d - 48)) n ds, None)
      else (maxUint64, Some ErrRange))"
proof (induction ds arbitrary: n)
  case Nil
  then show ?case by simp
next
  case (Cons d ds)
  let ?v = "(of_char d :: nat) - 48"
  let ?acc = "foldl (\<lambda>n d. 10 * n + (of_char d - 48))"
  from Cons.prems have d: "isDigit d" and ds: "list_all isDigit ds" by simp_all
  have v: "?v < 10" using d by (rule digit_bound)
  have bv: "byteValue d = Some ?v" using d by (rule byteValue_digit)
  have ge: "10 * n + ?v \<le> ?acc (10 * n + ?v) ds" by (rule foldl_digits_ge)
  show ?case
  proof (cases "n \<ge> cutoff64")
    case True
    then have "10 * n + ?v \<ge> 2 ^ 64" by (simp add: cutoff64_def maxUint64_def)
    with ge have "\<not> ?acc (10 * n + ?v) ds < 2 ^ 64" by simp
    with True bv v show ?thesis by simp
  next
    case False
    then have n10: "n * 10 < 2 ^ 64" by (simp add: cutoff64_def maxUint64_def)
    then have m10: "(n * 10) mod 2 ^ 64 = n * 10" by simp
    show ?thesis
    proof (cases "n * 10 + ?v < 2 ^ 64")
      case True
      then have n1: "(n * 10 + ?v) mod 2 ^ 64 = n * 10 + ?v" by simp
      have "\<not> n * 10 + ?v > maxUint64" using True by (simp add: maxUint64_def)
      with False bv v m10 n1 Cons.IH [OF ds True] show ?thesis
        by (simp add: Let_def mult.commute)
    next
      case over: False
      have lt: "n * 10 + ?v < 2 * 2 ^ 64" using n10 v by simp
      have "(n * 10 + ?v) mod 2 ^ 64 = n * 10 + ?v - 2 ^ 64"
        using over lt by (simp add: mod_if)
      then have wrap: "(n * 10 + ?v) mod 2 ^ 64 < n * 10" using over v by simp
      from over ge have "\<not> ?acc (10 * n + ?v) ds < 2 ^ 64" by (simp add: mult.commute)
      with False bv v m10 wrap show ?thesis by (simp add: Let_def)
    qed
  qed
qed

lemma ParseUint_loop_nondigit:
  "\<not> list_all isDigit ds \<Longrightarrow>
   ParseUint_loop n ds = (0, Some ErrSyntax) \<or> ParseUint_loop n ds = (maxUint64, Some ErrRange)"
proof (induction ds arbitrary: n)
  case Nil
  then show ?case by simp
next
  case (Cons d ds)
  show ?case
  proof (cases "isDigit d")
    case True
    with Cons.prems have "\<not> list_all isDigit ds" by simp
    from Cons.IH [OF this] True show ?thesis
      by (simp add: byteValue_digit Let_def)
  next
    case False
    from byteValue_nondigit [OF this] show ?thesis by auto
  qed
qed

lemma ParseUint_digits:
  "ds \<noteq> [] \<Longrightarrow> list_all isDigit ds \<Longrightarrow>
   ParseUint ds = (if digitsValue ds < 2 ^ 64 then (digitsValue ds, None)
                   else (maxUint64, Some ErrRange))"
  using ParseUint_loop_digits [of ds 0]
  by (cases ds) (simp_all add: ParseUint_def digitsValue_def)

lemma ParseUint_other:
  "\<not> (ds \<noteq> [] \<and> list_all isDigit ds) \<Longrightarrow>
   ParseUint ds = (0, Some ErrSyntax) \<or> ParseUint ds = (maxUint64, Some ErrRange)"
  using ParseUint_loop_nondigit [of ds 0]
  by (cases ds) (auto simp: ParseUint_def)

lemma ParseInt_afterSign:
  "ParseInt s =
     (if s = [] then Inl (NumError ''ParseInt'' s ErrSyntax)
      else afterSign s (hd s = CHR ''-'')
             (if hd s = CHR ''+'' \<or> hd s = CHR ''-'' then tl s else s))"
  by (simp add: ParseInt_def afterSign_def Let_def)

lemma toInt64_small: "- (2 ^ 63) \<le> x \<Longrightarrow> x < 2 ^ 63 \<Longrightarrow> toInt64 x = x"
  by (simp add: toInt64_def)

lemma maxUint64_large: "(2 ^ 63 :: nat) < maxUint64"
  by (simp add: maxUint64_def)

lemma afterSign_bad:
  assumes "\<not> (ds \<noteq> [] \<and> list_all isDigit ds)"
  shows "isl (afterSign s0 neg ds)"
proof -
  from ParseUint_other [OF assms]
  consider (syn) "ParseUint ds = (0, Some ErrSyntax)"
    | (rng) "ParseUint ds = (maxUint64, Some ErrRange)" by blast
  then show ?thesis
  proof cases
    case syn
    then show ?thesis by (simp add: afterSign_def)
  next
    case rng
    have "(2 ^ 63 :: nat) \<le> maxUint64" using maxUint64_large by simp
    with rng maxUint64_large show ?thesis
      by (cases neg) (simp_all add: afterSign_def)
  qed
qed

lemma afterSign_pos:
  assumes "ds \<noteq> []" "list_all isDigit ds"
  shows "afterSign s0 False ds =
           (if int (digitsValue ds) < 2 ^ 63 then Inr (int (digitsValue ds))
            else Inl (NumError ''ParseInt'' s0 ErrRange))"
proof (cases "digitsValue ds < 2 ^ 63")
  case True
  then have "digitsValue ds < 2 ^ 64" by simp
  moreover have "int (digitsValue ds) < 2 ^ 63" using True by simp
  moreover from this have "toInt64 (int (digitsValue ds)) = int (digitsValue ds)"
    by (simp add: toInt64_small)
  ultimately show ?thesis
    using True by (simp add: afterSign_def ParseUint_digits [OF assms])
next
  case False
  then have "\<not> int (digitsValue ds) < 2 ^ 63" by simp
  with False show ?thesis
    by (simp add: afterSign_def ParseUint_digits [OF assms] maxUint64_def)
qed

lemma afterSign_neg:
  assumes "ds \<noteq> []" "list_all isDigit ds"
  shows "afterSign s0 True ds =
           (if int (digitsValue ds) \<le> 2 ^ 63 then Inr (- int (digitsValue ds))
            else Inl (NumError ''ParseInt'' s0 ErrRange))"
proof -
  consider (small) "digitsValue ds < 2 ^ 63" | (edge) "digitsValue ds = 2 ^ 63"
    | (big) "digitsValue ds > 2 ^ 63" by linarith
  then show ?thesis
  proof cases
    case small
    then have i: "int (digitsValue ds) < 2 ^ 63" by simp
    then have "toInt64 (int (digitsValue ds)) = int (digitsValue ds)"
      by (simp add: toInt64_small)
    moreover have "toInt64 (- int (digitsValue ds)) = - int (digitsValue ds)"
      using i by (simp add: toInt64_small)
    moreover have "digitsValue ds < 2 ^ 64" using small by simp
    ultimately show ?thesis
      using small i by (simp add: afterSign_def ParseUint_digits [OF assms])
  next
    case edge
    then show ?thesis
      by (simp add: afterSign_def ParseUint_digits [OF assms] toInt64_def)
  next
    case big
    then have "\<not> int (digitsValue ds) \<le> 2 ^ 63" by simp
    with big show ?thesis
      by (simp add: afterSign_def ParseUint_digits [OF assms] maxUint64_def)
  qed
qed

lemma ParseInt_accepts: "base10_spec s = Some i \<Longrightarrow> ParseInt s = Inr i"
  by (cases s)
     (auto simp: base10_spec_def ParseInt_afterSign afterSign_pos afterSign_neg Let_def
           split: if_splits)

lemma ParseInt_rejects: "base10_spec s = None \<Longrightarrow> isl (ParseInt s)"
proof (cases s)
  case Nil
  then show ?thesis by (simp add: ParseInt_def)
next
  case (Cons c cs)
  define ds where "ds = (if c = CHR ''+'' \<or> c = CHR ''-'' then cs else s)"
  assume none: "base10_spec s = None"
  have PI: "ParseInt s = afterSign s (c = CHR ''-'') ds"
    using Cons by (simp add: ParseInt_afterSign ds_def)
  show ?thesis
  proof (cases "ds \<noteq> [] \<and> list_all isDigit ds")
    case False
    then show ?thesis
      using afterSign_bad [of ds s "c = CHR ''-''"] by (simp add: PI)
  next
    case True
    then have ok: "ds \<noteq> []" "list_all isDigit ds" by simp_all
    show ?thesis
    proof (cases "c = CHR ''-''")
      case neg: True
      with none Cons True have "\<not> int (digitsValue ds) \<le> 2 ^ 63"
        by (simp add: base10_spec_def ds_def Let_def split: if_splits)
      with neg show ?thesis
        using afterSign_neg [OF ok, of s] by (simp add: PI)
    next
      case pos: False
      with none Cons True have "\<not> int (digitsValue ds) < 2 ^ 63"
        by (auto simp: base10_spec_def ds_def Let_def split: if_splits)
      with pos show ?thesis
        using afterSign_pos [OF ok, of s] by (simp add: PI)
    qed
  qed
qed

text \<open>
  Claim C5.  For a text that is a base-10 signed integer (leading zeros allowed, as in
  \<open>01\<close>), \<open>Set\<close> of an integer parameter succeeds and stores its value; for every other
  text \<open>Set\<close> fails and changes nothing.
\<close>

theorem intParam_Set_base10:
  "(base10_spec s = Some i \<longrightarrow>
      intParam_Set s (ia, h) = (None, (ia, h\<lparr>intCells := (intCells h)(into ia := i)\<rparr>)))
   \<and> (base10_spec s = None \<longrightarrow> (\<exists>err. intParam_Set s (ia, h) = (Some err, (ia, h))))"
proof (intro conjI impI)
  assume "base10_spec s = Some i"
  then have "ParseInt s = Inr i" by (rule ParseInt_accepts)
  then show "intParam_Set s (ia, h) = (None, (ia, h\<lparr>intCells := (intCells h)(into ia := i)\<rparr>))"
    by simp
next
  assume "base10_spec s = None"
  then have "isl (ParseInt s)" by (rule ParseInt_rejects)
  then obtain err where "ParseInt s = Inl err" by (cases "ParseInt s") simp_all
  then show "\<exists>err. intParam_Set s (ia, h) = (Some err, (ia, h))" by simp
qed

theorem intParam_Set_base10_witness:
  "base10_spec ''01'' = Some 1
   \<and> intParam_Set ''01'' (\<lparr>into = 0\<rparr>, zeroHeap)
       = (None, (\<lparr>into = 0\<rparr>, zeroHeap\<lparr>intCells := (intCells zeroHeap)(0 := 1)\<rparr>))
   \<and> base10_spec ''-12'' = Some (- 12)
   \<and> base10_spec ''abc'' = None
   \<and> (\<exists>err. intParam_Set ''abc'' (\<lparr>into = 0\<rparr>, zeroHeap) = (Some err, (\<lparr>into = 0\<rparr>, zeroHeap)))"
proof -
  have a: "base10_spec ''01'' = Some 1" by (simp add: base10_eval)
  have b: "base10_spec ''abc'' = None" by (simp add: base10_eval)
  have c: "base10_spec ''-12'' = Some (- 12)" by (simp add: base10_eval)
  from a b c
    intParam_Set_base10 [where s = "''01''" and i = 1 and ia = "\<lparr>into = 0\<rparr>" and h = zeroHeap]
    intParam_Set_base10 [where s = "''abc''" and ia = "\<lparr>into = 0\<rparr>" and h = zeroHeap]
  show ?thesis by simp
qed

section \<open>The \<open>Var\<close> kinds: results\<close>

text \<open>
  Claim C7.  \<open>SetMulti\<close> of a \<open>VarOpt\<close> or \<open>VarArg\<close> panics, and returns nothing, when
  the wrapped value does not assert to \<open>multiValued\<close> or reports not to be
  multi-valued; otherwise it returns what the wrapped value's \<open>SetMulti\<close> returns.
\<close>

theorem Var_SetMulti_contract:
  "((asMultiValued (Value vo) = None
      \<or> (\<exists>mv. asMultiValued (Value vo) = Some mv \<and> \<not> IsMultiValued mv st)) \<longrightarrow>
      VarOpt_SetMulti vo vs st = Panic ''Bug'' \<and> VarArg_SetMulti vo vs st = Panic ''Bug'')
   \<and> (asMultiValued (Value vo) = Some mv \<and> IsMultiValued mv st \<longrightarrow>
      VarOpt_SetMulti vo vs st = Returned (SetMulti mv vs st)
      \<and> VarArg_SetMulti vo vs st = Returned (SetMulti mv vs st))"
  by (auto simp: VarOpt_SetMulti_def VarArg_SetMulti_def)

theorem Var_SetMulti_contract_witness:
  "asMultiValued (Value \<lparr>Name = ''n'', Desc = [], EnvVar = [], Value = intParam_Value,
                         HideValue = False\<rparr>) = None
   \<and> VarOpt_SetMulti \<lparr>Name = ''n'', Desc = [], EnvVar = [], Value = intParam_Value,
                       HideValue = False\<rparr> [''1''] (\<lparr>into = 0\<rparr>, zeroHeap) = Panic ''Bug''
   \<and> VarArg_SetMulti \<lparr>Name = ''n'', Desc = [], EnvVar = [], Value = intParam_Value,
                       HideValue = False\<rparr> [''1''] (\<lparr>into = 0\<rparr>, zeroHeap) = Panic ''Bug''
   \<and> asMultiValued (Value \<lparr>Name = ''n'', Desc = [], EnvVar = [], Value = intsParam_Value,
                           HideValue = False\<rparr>)
       = Some \<lparr>IsMultiValued = intsParam_IsMultiValued, SetMulti = intsParam_SetMulti\<rparr>
   \<and> intsParam_IsMultiValued (\<lparr>into = 0\<rparr>, zeroHeap)
   \<and> VarOpt_SetMulti \<lparr>Name = ''n'', Desc = [], EnvVar = [], Value = intsParam_Value,
                       HideValue = False\<rparr> [''1''] (\<lparr>into = 0\<rparr>, zeroHeap)
       = Returned (intsParam_SetMulti [''1''] (\<lparr>into = 0\<rparr>, zeroHeap))"
proof -
  let ?no = "\<lparr>Name = ''n'', Desc = [], EnvVar = [], Value = intParam_Value, HideValue = False\<rparr>"
  let ?yes = "\<lparr>Name = ''n'', Desc = [], EnvVar = [], Value = intsParam_Value, HideValue = False\<rparr>"
  let ?mv = "\<lparr>IsMultiValued = intsParam_IsMultiValued, SetMulti = intsParam_SetMulti\<rparr>"
  have a: "asMultiValued (Value ?no) = None" by (simp add: intParam_Value_def)
  have b: "asMultiValued (Value ?yes) = Some ?mv" by (simp add: intsParam_Value_def)
  have c: "IsMultiValued ?mv (\<lparr>into = 0\<rparr>, zeroHeap)" by (simp add: intsParam_IsMultiValued_def)
  from a b c
    Var_SetMulti_contract [where vo = ?no and vs = "[''1'']" and st = "(\<lparr>into = 0\<rparr>, zeroHeap)"]
    Var_SetMulti_contract [where vo = ?yes and vs = "[''1'']" and st = "(\<lparr>into = 0\<rparr>, zeroHeap)"
      and mv = ?mv]
  show ?thesis by (simp add: intsParam_IsMultiValued_def)
qed

section \<open>Trimming: lemmas\<close>

lemma stripLeading_fix: "matchLen encs s = 0 \<Longrightarrow> stripLeading encs s = s"
  by (simp add: stripLeading.simps)

lemma matchLen_stripLeading: "matchLen encs (stripLeading encs s) = 0"
proof (induction encs s rule: stripLeading.induct)
  case (1 encs s)
  then show ?case by (cases "matchLen encs s = 0") (simp_all add: stripLeading.simps)
qed

lemma stripLeading_drop: "\<exists>n. stripLeading encs s = drop n s"
proof (induction encs s rule: stripLeading.induct)
  case (1 encs s)
  show ?case
  proof (cases "matchLen encs s = 0")
    case True
    then have "stripLeading encs s = drop 0 s" by (simp add: stripLeading.simps)
    then show ?thesis by blast
  next
    case False
    with 1 obtain n where "stripLeading encs (drop (matchLen encs s) s) = drop n (drop (matchLen encs s) s)"
      by blast
    with False have "stripLeading encs s = drop (n + matchLen encs s) s"
      by (simp add: stripLeading.simps [of encs s] add.commute)
    then show ?thesis by blast
  qed
qed

lemma matchLen_zero_iff:
  "matchLen encs s = 0 \<longleftrightarrow> (\<forall>e \<in> set encs. e \<noteq> [] \<longrightarrow> take (length e) s \<noteq> e)"
proof
  assume "matchLen encs s = 0"
  then have "find (\<lambda>e. e \<noteq> [] \<and> take (length e) s = e) encs = None"
    by (auto simp: matchLen_def find_Some_iff split: option.splits)
  then show "\<forall>e \<in> set encs. e \<noteq> [] \<longrightarrow> take (length e) s \<noteq> e"
    by (auto simp: find_None_iff)
next
  assume "\<forall>e \<in> set encs. e \<noteq> [] \<longrightarrow> take (length e) s \<noteq> e"
  then have "find (\<lambda>e. e \<noteq> [] \<and> take (length e) s = e) encs = None"
    by (auto simp: find_None_iff)
  then show "matchLen encs s = 0" by (simp add: matchLen_def)
qed

lemma matchLen_take: "matchLen encs t = 0 \<Longrightarrow> matchLen encs (take k t) = 0"
proof -
  assume z: "matchLen encs t = 0"
  have "take (length e) (take k t) \<noteq> e" if e: "e \<in> set encs" "e \<noteq> []" for e
  proof
    assume eq: "take (length e) (take k t) = e"
    then have "length e \<le> k"
      by (metis length_take min.cobounded1 min.cobounded2 order_trans)
    then have "take (length e) (take k t) = take (length e) t" by (simp add: min_def)
    with eq have "take (length e) t = e" by simp
    with z e show False by (simp add: matchLen_zero_iff)
  qed
  then show ?thesis by (simp add: matchLen_zero_iff)
qed

lemma TrimSpace_idem: "TrimSpace (TrimSpace s) = TrimSpace s"
proof -
  define t where "t = stripLeading spaceEncodings s"
  define u where "u = stripLeading (map rev spaceEncodings) (rev t)"
  have r: "TrimSpace s = rev u" by (simp add: TrimSpace_def t_def u_def)
  obtain n where "u = drop n (rev t)" using stripLeading_drop u_def by blast
  then have "rev u = take (length t - n) t" by (simp add: rev_drop)
  moreover have "matchLen spaceEncodings t = 0" by (simp add: t_def matchLen_stripLeading)
  ultimately have "matchLen spaceEncodings (rev u) = 0" by (simp add: matchLen_take)
  then have "stripLeading spaceEncodings (rev u) = rev u" by (rule stripLeading_fix)
  moreover have "stripLeading (map rev spaceEncodings) u = u"
    by (rule stripLeading_fix) (simp add: u_def matchLen_stripLeading)
  ultimately have "TrimSpace (rev u) = rev u" by (simp add: TrimSpace_def)
  with r show ?thesis by simp
qed

lemma TrimSpace_Nil: "TrimSpace [] = []"
  by (simp add: TrimSpace_eval)

section \<open>Repeated-string parameters: results\<close>

lemma stripLeading_split:
  "\<exists>ws. set ws \<subseteq> set encs \<and> s = concat ws @ stripLeading encs s"
proof (induction encs s rule: stripLeading.induct)
  case (1 encs s)
  show ?case
  proof (cases "matchLen encs s = 0")
    case True
    then have "set [] \<subseteq> set encs \<and> s = concat [] @ stripLeading encs s"
      by (simp add: stripLeading_fix)
    then show ?thesis by blast
  next
    case False
    then obtain e where f: "find (\<lambda>e. e \<noteq> [] \<and> take (length e) s = e) encs = Some e"
      by (auto simp: matchLen_def split: option.splits)
    then have e: "e \<in> set encs" "take (length e) s = e"
      by (auto simp: find_Some_iff)
    from f have n: "matchLen encs s = length e" by (simp add: matchLen_def)
    from e have s: "s = e @ drop (length e) s" by (metis append_take_drop_id)
    from 1 [OF False] n obtain ws where
      ws: "set ws \<subseteq> set encs" "drop (length e) s = concat ws @ stripLeading encs (drop (length e) s)"
      by auto
    have st: "stripLeading encs s = stripLeading encs (drop (length e) s)"
      using False n by (simp add: stripLeading.simps [of encs s])
    from s ws(2) st have "s = concat (e # ws) @ stripLeading encs s" by simp
    moreover from e ws have "set (e # ws) \<subseteq> set encs" by simp
    ultimately show ?thesis by blast
  qed
qed

lemma TrimSpace_split:
  "\<exists>pre post. blank pre \<and> blank post \<and> v = pre @ TrimSpace v @ post"
proof -
  define t where "t = stripLeading spaceEncodings v"
  define u where "u = stripLeading (map rev spaceEncodings) (rev t)"
  obtain ws where ws: "set ws \<subseteq> set spaceEncodings" "v = concat ws @ t"
    using stripLeading_split [of spaceEncodings v] t_def by auto
  obtain rs where rs: "set rs \<subseteq> set (map rev spaceEncodings)" "rev t = concat rs @ u"
    using stripLeading_split [of "map rev spaceEncodings" "rev t"] u_def by auto
  from rs(2) have "t = rev u @ rev (concat rs)" by (metis rev_append rev_rev_ident)
  then have t: "t = rev u @ concat (rev (map rev rs))" by (simp add: rev_concat rev_map)
  from rs(1) have "set (rev (map rev rs)) \<subseteq> set spaceEncodings" by auto
  then have "blank (concat (rev (map rev rs)))" unfolding blank_def by blast
  moreover from ws(1) have "blank (concat ws)" unfolding blank_def by blast
  moreover have "TrimSpace v = rev u" by (simp add: TrimSpace_def t_def u_def)
  moreover from ws(2) t have "v = concat ws @ rev u @ concat (rev (map rev rs))" by simp
  ultimately show ?thesis by metis
qed

lemma TrimSpace_ends:
  "matchLen spaceEncodings (TrimSpace v) = 0
   \<and> matchLen (map rev spaceEncodings) (rev (TrimSpace v)) = 0"
proof -
  define t where "t = stripLeading spaceEncodings v"
  define u where "u = stripLeading (map rev spaceEncodings) (rev t)"
  have r: "TrimSpace v = rev u" by (simp add: TrimSpace_def t_def u_def)
  obtain n where "u = drop n (rev t)" using stripLeading_drop u_def by blast
  then have "rev u = take (length t - n) t" by (simp add: rev_drop)
  moreover have "matchLen spaceEncodings t = 0" by (simp add: t_def matchLen_stripLeading)
  ultimately have "matchLen spaceEncodings (rev u) = 0" by (simp add: matchLen_take)
  moreover have "matchLen (map rev spaceEncodings) u = 0"
    by (simp add: u_def matchLen_stripLeading)
  ultimately show ?thesis by (simp add: r)
qed

text \<open>
  Claim C2.  \<open>Set\<close> of a repeated-string parameter (and of \<open>StringsArg\<close>) never fails
  and appends the raw token, as it is, to the sequence; \<open>SetMulti\<close> never fails and
  makes the parameter's sequence the batch with every element trimmed, in input
  order, empty strings included.  Trimming an element \<open>v\<close> removes white space before
  and after it and nothing else: \<open>v\<close> is \<open>TrimSpace v\<close> between two runs of white space,
  and \<open>TrimSpace v\<close> neither starts nor ends with white space.
\<close>

theorem stringsParam_accumulate_replace:
  "stringsParam_Set s (sa, h) =
     (None, (sa, h\<lparr>stringsCells := (stringsCells h)(into sa := stringsCells h (into sa) @ [s])\<rparr>))
   \<and> StringsArg_Set s (sa, h) = stringsParam_Set s (sa, h)
   \<and> stringsParam_SetMulti vs (sa, h) =
     (None, (sa\<lparr>into := stringsFree h\<rparr>,
             h\<lparr>stringsCells := (stringsCells h)(stringsFree h := map TrimSpace vs),
               stringsFree := Suc (stringsFree h)\<rparr>))
   \<and> StringsArg_SetMulti vs (sa, h) = stringsParam_SetMulti vs (sa, h)
   \<and> stringsCells (snd (snd (stringsParam_SetMulti vs (sa, h))))
        (into (fst (snd (stringsParam_SetMulti vs (sa, h))))) = map TrimSpace vs
   \<and> (\<exists>pre post. blank pre \<and> blank post \<and> v = pre @ TrimSpace v @ post)
   \<and> matchLen spaceEncodings (TrimSpace v) = 0
   \<and> matchLen (map rev spaceEncodings) (rev (TrimSpace v)) = 0
   \<and> map TrimSpace [''a'', '' b '', [], [CHR 0x09, CHR ''c'', CHR '' '', CHR ''d'', CHR 0xC2, CHR 0xA0]]
       = [''a'', ''b'', [], ''c d'']"
proof -
  have "map TrimSpace [''a'', '' b '', [], [CHR 0x09, CHR ''c'', CHR '' '', CHR ''d'', CHR 0xC2, CHR 0xA0]]
       = [''a'', ''b'', [], ''c d'']"
    by (simp add: TrimSpace_eval)
  with TrimSpace_split [of v] TrimSpace_ends [of v] show ?thesis
    by (simp add: trimmed_batch)
qed

theorem stringsParam_accumulate_replace_witness:
  "stringsParam_SetMulti [''a'', '' b ''] (\<lparr>into = 0\<rparr>, zeroHeap)
     = (None, (\<lparr>into = 1\<rparr>,
               zeroHeap\<lparr>stringsCells := (stringsCells zeroHeap)(1 := [''a'', ''b'']),
                        stringsFree := 2\<rparr>))
   \<and> stringsParam_Set ''c''
       (\<lparr>into = 1\<rparr>, zeroHeap\<lparr>stringsCells := (stringsCells zeroHeap)(1 := [''a'', ''b'']),
                              stringsFree := 2\<rparr>)
     = (None, (\<lparr>into = 1\<rparr>,
               zeroHeap\<lparr>stringsCells := (stringsCells zeroHeap)(1 := [''a'', ''b'', ''c'']),
                        stringsFree := 2\<rparr>))
   \<and> stringsParam_Set '' d ''
       (\<lparr>into = 1\<rparr>, zeroHeap\<lparr>stringsCells := (stringsCells zeroHeap)(1 := [''a'', ''b'', ''c'']),
                              stringsFree := 2\<rparr>)
     = (None, (\<lparr>into = 1\<rparr>,
               zeroHeap\<lparr>stringsCells := (stringsCells zeroHeap)(1 := [''a'', ''b'', ''c'', '' d '']),
                        stringsFree := 2\<rparr>))
   \<and> stringsParam_SetMulti [[], ''  x''] (\<lparr>into = 0\<rparr>, zeroHeap)
     = (None, (\<lparr>into = 1\<rparr>,
               zeroHeap\<lparr>stringsCells := (stringsCells zeroHeap)(1 := [[], ''x'']),
                        stringsFree := 2\<rparr>))"
proof -
  have t: "map TrimSpace [''a'', '' b ''] = [''a'', ''b'']" "map TrimSpace [[], ''  x''] = [[], ''x'']"
    by (simp_all add: TrimSpace_eval)
  note multi = stringsParam_accumulate_replace [THEN conjunct2, THEN conjunct2, THEN conjunct1]
  note single = stringsParam_accumulate_replace [THEN conjunct1]
  have a: "stringsParam_SetMulti [''a'', '' b ''] (\<lparr>into = 0\<rparr>, zeroHeap)
     = (None, (\<lparr>into = 1\<rparr>,
               zeroHeap\<lparr>stringsCells := (stringsCells zeroHeap)(1 := [''a'', ''b'']),
                        stringsFree := 2\<rparr>))"
    unfolding multi t by (simp add: zeroHeap_def)
  have b: "stringsParam_SetMulti [[], ''  x''] (\<lparr>into = 0\<rparr>, zeroHeap)
     = (None, (\<lparr>into = 1\<rparr>,
               zeroHeap\<lparr>stringsCells := (stringsCells zeroHeap)(1 := [[], ''x'']),
                        stringsFree := 2\<rparr>))"
    unfolding multi t by (simp add: zeroHeap_def)
  have c: "stringsParam_Set ''c''
       (\<lparr>into = 1\<rparr>, zeroHeap\<lparr>stringsCells := (stringsCells zeroHeap)(1 := [''a'', ''b'']),
                              stringsFree := 2\<rparr>)
     = (None, (\<lparr>into = 1\<rparr>,
               zeroHeap\<lparr>stringsCells := (stringsCells zeroHeap)(1 := [''a'', ''b'', ''c'']),
                        stringsFree := 2\<rparr>))"
    unfolding single by (simp add: zeroHeap_def)
  have d: "stringsParam_Set '' d ''
       (\<lparr>into = 1\<rparr>, zeroHeap\<lparr>stringsCells := (stringsCells zeroHeap)(1 := [''a'', ''b'', ''c'']),
                              stringsFree := 2\<rparr>)
     = (None, (\<lparr>into = 1\<rparr>,
               zeroHeap\<lparr>stringsCells := (stringsCells zeroHeap)(1 := [''a'', ''b'', ''c'', '' d '']),
                        stringsFree := 2\<rparr>))"
    unfolding single by (simp add: zeroHeap_def)
  show ?thesis by (intro conjI a b c d)
qed

section \<open>The environment loop: lemmas\<close>

lemma setFromEnv_loop_skip:
  "TrimSpace rawEv = [] \<or> Getenv env (TrimSpace rawEv) = [] \<Longrightarrow>
   setFromEnv_loop into' isMulti env (rawEv # rawEvs) s = setFromEnv_loop into' isMulti env rawEvs s"
  by (auto simp: Let_def)

lemma setFromEnv_loop_call:
  "TrimSpace rawEv \<noteq> [] \<Longrightarrow> Getenv env (TrimSpace rawEv) \<noteq> [] \<Longrightarrow>
   isMulti \<longrightarrow> asMultiValued into' \<noteq> None \<Longrightarrow>
   setFromEnv_loop into' isMulti env (rawEv # rawEvs) s =
     (case envCall into' isMulti (Getenv env (TrimSpace rawEv)) s of
        (None, s1) \<Rightarrow> Returned s1
      | (Some err, s1) \<Rightarrow> setFromEnv_loop into' isMulti env rawEvs s1)"
  by (auto simp: Let_def envCall_def split: option.splits)

lemma setFromEnv_loop_names:
  "setFromEnv_loop into' isMulti env rawEvs s =
   setFromEnv_loop into' isMulti env (filter (\<lambda>ev. ev \<noteq> []) (map TrimSpace rawEvs)) s"
proof (induction rawEvs arbitrary: s)
  case Nil
  show ?case by simp
next
  case (Cons rawEv rawEvs)
  show ?case
  proof (cases "TrimSpace rawEv = []")
    case True
    with Cons show ?thesis by simp
  next
    case False
    with Cons.IH show ?thesis
      by (auto simp: TrimSpace_idem Let_def split: prod.splits option.splits)
  qed
qed

lemma setFromEnv_loop_first:
  assumes "filter (\<lambda>v. v \<noteq> []) (map (Getenv env) (filter (\<lambda>ev. ev \<noteq> []) (map TrimSpace rawEvs)))
             = v # rest"
    and "isMulti \<longrightarrow> asMultiValued into' \<noteq> None"
    and "envCall into' isMulti v s = (None, s1)"
  shows "setFromEnv_loop into' isMulti env rawEvs s = Returned s1"
  using assms(1)
proof (induction rawEvs)
  case Nil
  then show ?case by simp
next
  case (Cons rawEv rawEvs)
  show ?case
  proof (cases "TrimSpace rawEv = [] \<or> Getenv env (TrimSpace rawEv) = []")
    case True
    then have "setFromEnv_loop into' isMulti env (rawEv # rawEvs) s =
               setFromEnv_loop into' isMulti env rawEvs s"
      by (rule setFromEnv_loop_skip)
    moreover from True Cons.prems have
      "filter (\<lambda>v. v \<noteq> []) (map (Getenv env) (filter (\<lambda>ev. ev \<noteq> []) (map TrimSpace rawEvs)))
         = v # rest"
      by (auto split: if_splits)
    ultimately show ?thesis using Cons.IH by simp
  next
    case False
    with Cons.prems have v: "Getenv env (TrimSpace rawEv) = v" by simp
    from False have "setFromEnv_loop into' isMulti env (rawEv # rawEvs) s =
     (case envCall into' isMulti (Getenv env (TrimSpace rawEv)) s of
        (None, s1) \<Rightarrow> Returned s1
      | (Some err, s1) \<Rightarrow> setFromEnv_loop into' isMulti env rawEvs s1)"
      using assms(2) by (intro setFromEnv_loop_call) simp_all
    with v assms(3) show ?thesis by simp
  qed
qed

lemma setFromEnv_loop_find:
  assumes "keepsOnError into'" and "isMulti \<longrightarrow> asMultiValued into' \<noteq> None"
  shows "setFromEnv_loop into' isMulti env rawEvs s =
     Returned (case find (\<lambda>v. fst (envCall into' isMulti v s) = None)
                 (filter (\<lambda>v. v \<noteq> []) (map (Getenv env)
                    (filter (\<lambda>ev. ev \<noteq> []) (map TrimSpace rawEvs)))) of
                 None \<Rightarrow> s
               | Some v \<Rightarrow> snd (envCall into' isMulti v s))"
proof (induction rawEvs)
  case Nil
  show ?case by simp
next
  case (Cons rawEv rawEvs)
  show ?case
  proof (cases "TrimSpace rawEv = [] \<or> Getenv env (TrimSpace rawEv) = []")
    case True
    then have "setFromEnv_loop into' isMulti env (rawEv # rawEvs) s =
               setFromEnv_loop into' isMulti env rawEvs s"
      by (rule setFromEnv_loop_skip)
    moreover from True have
      "filter (\<lambda>v. v \<noteq> []) (map (Getenv env)
         (filter (\<lambda>ev. ev \<noteq> []) (map TrimSpace (rawEv # rawEvs)))) =
       filter (\<lambda>v. v \<noteq> []) (map (Getenv env) (filter (\<lambda>ev. ev \<noteq> []) (map TrimSpace rawEvs)))"
      by (auto split: if_splits)
    ultimately show ?thesis using Cons.IH by simp
  next
    case False
    define v where "v = Getenv env (TrimSpace rawEv)"
    have vals: "filter (\<lambda>v. v \<noteq> []) (map (Getenv env)
         (filter (\<lambda>ev. ev \<noteq> []) (map TrimSpace (rawEv # rawEvs)))) =
       v # filter (\<lambda>v. v \<noteq> []) (map (Getenv env) (filter (\<lambda>ev. ev \<noteq> []) (map TrimSpace rawEvs)))"
      using False by (simp add: v_def)
    have step: "setFromEnv_loop into' isMulti env (rawEv # rawEvs) s =
     (case envCall into' isMulti v s of
        (None, s1) \<Rightarrow> Returned s1
      | (Some err, s1) \<Rightarrow> setFromEnv_loop into' isMulti env rawEvs s1)"
      unfolding v_def using False assms(2) by (intro setFromEnv_loop_call) simp_all
    obtain r s1 where call: "envCall into' isMulti v s = (r, s1)"
      by (cases "envCall into' isMulti v s")
    show ?thesis
    proof (cases r)
      case None
      with call step vals show ?thesis by simp
    next
      case (Some err)
      with call assms(1) have "s1 = s"
        by (auto simp: keepsOnError_def envCall_def split: option.splits if_splits)
      with Some call step vals Cons.IH show ?thesis by simp
    qed
  qed
qed

lemma setFromEnv_loop_returns:
  "isMulti \<longrightarrow> asMultiValued into' \<noteq> None \<Longrightarrow>
   \<exists>s1. setFromEnv_loop into' isMulti env rawEvs s = Returned s1"
proof (induction rawEvs arbitrary: s)
  case Nil
  show ?case by simp
next
  case (Cons rawEv rawEvs)
  show ?case
  proof (cases "TrimSpace rawEv = [] \<or> Getenv env (TrimSpace rawEv) = []")
    case True
    then show ?thesis
      using Cons.IH [OF Cons.prems, of s] by (simp only: setFromEnv_loop_skip)
  next
    case False
    then have step: "setFromEnv_loop into' isMulti env (rawEv # rawEvs) s =
     (case envCall into' isMulti (Getenv env (TrimSpace rawEv)) s of
        (None, s1) \<Rightarrow> Returned s1
      | (Some err, s1) \<Rightarrow> setFromEnv_loop into' isMulti env rawEvs s1)"
      using Cons.prems by (intro setFromEnv_loop_call) simp_all
    obtain r s1 where call: "envCall into' isMulti (Getenv env (TrimSpace rawEv)) s = (r, s1)"
      by (metis surj_pair)
    show ?thesis
    proof (cases r)
      case None
      with call step show ?thesis by simp
    next
      case (Some err)
      with call step Cons.IH [OF Cons.prems, of s1] show ?thesis by simp
    qed
  qed
qed

section \<open>Aliasing after \<open>SetMulti\<close>: results\<close>

lemma intsParam_Set_frame:
  "intsParam_Set x (ia, h) = (r, (ia1, h1)) \<Longrightarrow>
   ia1 = ia \<and> (\<forall>a. a \<noteq> into ia \<longrightarrow> intsCells h1 a = intsCells h a)"
  by (auto split: sum.splits)

lemma stringsParam_Set_frame:
  "stringsParam_Set x (sa, h) = (r, (sa1, h1)) \<Longrightarrow>
   sa1 = sa \<and> (\<forall>a. a \<noteq> into sa \<longrightarrow> stringsCells h1 a = stringsCells h a)"
  by auto

lemma SetAll_intsParam_frame:
  "SetAll intsParam_Set xs (ia, h) = (ia2, h2) \<Longrightarrow>
   ia2 = ia \<and> (\<forall>a. a \<noteq> into ia \<longrightarrow> intsCells h2 a = intsCells h a)"
proof (induction xs arbitrary: h)
  case Nil
  then show ?case by (simp add: SetAll_def)
next
  case (Cons x xs)
  obtain r ia1 h1 where step: "intsParam_Set x (ia, h) = (r, (ia1, h1))"
    by (metis surj_pair)
  then have f: "ia1 = ia" "\<forall>a. a \<noteq> into ia \<longrightarrow> intsCells h1 a = intsCells h a"
    using intsParam_Set_frame by blast+
  from Cons.prems step f have "SetAll intsParam_Set xs (ia, h1) = (ia2, h2)"
    by (simp add: SetAll_def)
  from Cons.IH [OF this] f show ?case by simp
qed

lemma SetAll_stringsParam_frame:
  "SetAll stringsParam_Set xs (sa, h) = (sa2, h2) \<Longrightarrow>
   sa2 = sa \<and> (\<forall>a. a \<noteq> into sa \<longrightarrow> stringsCells h2 a = stringsCells h a)"
proof (induction xs arbitrary: h)
  case Nil
  then show ?case by (simp add: SetAll_def)
next
  case (Cons x xs)
  obtain r sa1 h1 where step: "stringsParam_Set x (sa, h) = (r, (sa1, h1))"
    by (metis surj_pair)
  then have f: "sa1 = sa" "\<forall>a. a \<noteq> into sa \<longrightarrow> stringsCells h1 a = stringsCells h a"
    using stringsParam_Set_frame by blast+
  from Cons.prems step f have "SetAll stringsParam_Set xs (sa, h1) = (sa2, h2)"
    by (simp add: SetAll_def)
  from Cons.IH [OF this] f show ?case by simp
qed

text \<open>
  Claim C9.  A successful \<open>SetMulti\<close> of a repeated-integer or repeated-string
  parameter points \<open>into\<close> at a slot allocated by the call, different from the slot it
  pointed at before.  Every other slot, the former one included, holds after the call,
  and after any run of \<open>Set\<close> calls that follows, what it held before: whoever kept the
  former pointer never sees the batch, and the later calls write to the new slot only.
\<close>

theorem SetMulti_redirects_into:
  "(into ia < intsFree h \<and> intsParam_SetMulti vs (ia, h) = (None, (ib, hb))
      \<and> SetAll intsParam_Set xs (ib, hb) = (ic, hc) \<longrightarrow>
      into ib = intsFree h \<and> into ib \<noteq> into ia \<and> into ic = into ib
      \<and> (\<forall>a. a \<noteq> into ib \<longrightarrow> intsCells hb a = intsCells h a \<and> intsCells hc a = intsCells h a)
      \<and> intsCells hc (into ia) = intsCells h (into ia))
   \<and> (into sa < stringsFree h \<and> stringsParam_SetMulti vs (sa, h) = (None, (sb, kb))
      \<and> SetAll stringsParam_Set xs (sb, kb) = (sc, kc) \<longrightarrow>
      into sb = stringsFree h \<and> into sb \<noteq> into sa \<and> into sc = into sb
      \<and> (\<forall>a. a \<noteq> into sb \<longrightarrow> stringsCells kb a = stringsCells h a
                               \<and> stringsCells kc a = stringsCells h a)
      \<and> stringsCells kc (into sa) = stringsCells h (into sa))"
proof (rule conjI; rule impI)
  assume a: "into ia < intsFree h \<and> intsParam_SetMulti vs (ia, h) = (None, (ib, hb))
      \<and> SetAll intsParam_Set xs (ib, hb) = (ic, hc)"
  then have new: "into ib = intsFree h" "\<forall>a. a \<noteq> intsFree h \<longrightarrow> intsCells hb a = intsCells h a"
    by (auto split: sum.splits)
  from a have later: "ic = ib" "\<forall>a. a \<noteq> into ib \<longrightarrow> intsCells hc a = intsCells hb a"
    using SetAll_intsParam_frame [of xs ib hb ic hc] by simp_all
  from a new later
  show "into ib = intsFree h \<and> into ib \<noteq> into ia \<and> into ic = into ib
      \<and> (\<forall>a. a \<noteq> into ib \<longrightarrow> intsCells hb a = intsCells h a \<and> intsCells hc a = intsCells h a)
      \<and> intsCells hc (into ia) = intsCells h (into ia)"
    by auto
next
  assume a: "into sa < stringsFree h \<and> stringsParam_SetMulti vs (sa, h) = (None, (sb, kb))
      \<and> SetAll stringsParam_Set xs (sb, kb) = (sc, kc)"
  then have new: "into sb = stringsFree h"
      "\<forall>a. a \<noteq> stringsFree h \<longrightarrow> stringsCells kb a = stringsCells h a"
    by (auto simp: Let_def)
  from a have later: "sc = sb" "\<forall>a. a \<noteq> into sb \<longrightarrow> stringsCells kc a = stringsCells kb a"
    using SetAll_stringsParam_frame [of xs sb kb sc kc] by simp_all
  from a new later
  show "into sb = stringsFree h \<and> into sb \<noteq> into sa \<and> into sc = into sb
      \<and> (\<forall>a. a \<noteq> into sb \<longrightarrow> stringsCells kb a = stringsCells h a
                               \<and> stringsCells kc a = stringsCells h a)
      \<and> stringsCells kc (into sa) = stringsCells h (into sa)"
    by auto
qed

theorem SetMulti_redirects_into_witness:
  "into \<lparr>into = 0\<rparr> < intsFree zeroHeap
   \<and> intsParam_SetMulti [''1'', ''  '', ''2''] (\<lparr>into = 0\<rparr>, zeroHeap)
       = (None, (\<lparr>into = 1\<rparr>,
                 zeroHeap\<lparr>intsCells := (intsCells zeroHeap)(1 := [1, 2]), intsFree := 2\<rparr>))
   \<and> SetAll intsParam_Set [''3'']
         (\<lparr>into = 1\<rparr>, zeroHeap\<lparr>intsCells := (intsCells zeroHeap)(1 := [1, 2]), intsFree := 2\<rparr>)
       = (\<lparr>into = 1\<rparr>,
          zeroHeap\<lparr>intsCells := (intsCells zeroHeap)(1 := [1, 2, 3]), intsFree := 2\<rparr>)
   \<and> intsCells (zeroHeap\<lparr>intsCells := (intsCells zeroHeap)(1 := [1, 2, 3]), intsFree := 2\<rparr>) 0 = []
   \<and> into \<lparr>into = 0\<rparr> < stringsFree zeroHeap
   \<and> stringsParam_SetMulti [''a'', '' b ''] (\<lparr>into = 0\<rparr>, zeroHeap)
       = (None, (\<lparr>into = 1\<rparr>,
                 zeroHeap\<lparr>stringsCells := (stringsCells zeroHeap)(1 := [''a'', ''b'']),
                          stringsFree := 2\<rparr>))
   \<and> SetAll stringsParam_Set [''c'', ''d'']
         (\<lparr>into = 1\<rparr>, zeroHeap\<lparr>stringsCells := (stringsCells zeroHeap)(1 := [''a'', ''b'']),
                                stringsFree := 2\<rparr>)
       = (\<lparr>into = 1\<rparr>,
          zeroHeap\<lparr>stringsCells := (stringsCells zeroHeap)(1 := [''a'', ''b'', ''c'', ''d'']),
                   stringsFree := 2\<rparr>)
   \<and> stringsCells (zeroHeap\<lparr>stringsCells := (stringsCells zeroHeap)(1 := [''a'', ''b'', ''c'', ''d'']),
                   stringsFree := 2\<rparr>) 0 = []"
proof -
  let ?h1 = "zeroHeap\<lparr>intsCells := (intsCells zeroHeap)(1 := [1, 2]), intsFree := 2\<rparr>"
  let ?h2 = "zeroHeap\<lparr>intsCells := (intsCells zeroHeap)(1 := [1, 2, 3]), intsFree := 2\<rparr>"
  let ?k1 = "zeroHeap\<lparr>stringsCells := (stringsCells zeroHeap)(1 := [''a'', ''b'']),
                      stringsFree := 2\<rparr>"
  let ?k2 = "zeroHeap\<lparr>stringsCells := (stringsCells zeroHeap)(1 := [''a'', ''b'', ''c'', ''d'']),
                      stringsFree := 2\<rparr>"
  have a: "into \<lparr>into = 0\<rparr> < intsFree zeroHeap" "into \<lparr>into = 0\<rparr> < stringsFree zeroHeap"
    by (simp_all add: zeroHeap_def)
  have loop: "intsParam_SetMulti_loop [''1'', ''  '', ''2''] [] = Inr [1, 2]"
    by (simp add: TrimSpace_eval ParseInt_eval)
  have b: "intsParam_SetMulti [''1'', ''  '', ''2''] (\<lparr>into = 0\<rparr>, zeroHeap) = (None, (\<lparr>into = 1\<rparr>, ?h1))"
    unfolding intsParam_SetMulti.simps loop by (simp add: zeroHeap_def)
  have three: "ParseInt ''3'' = Inr 3" by (simp add: ParseInt_eval)
  have c: "SetAll intsParam_Set [''3''] (\<lparr>into = 1\<rparr>, ?h1) = (\<lparr>into = 1\<rparr>, ?h2)"
    unfolding SetAll_def fold_simps intsParam_Set.simps three by (simp add: zeroHeap_def)
  have trims: "map TrimSpace [''a'', '' b ''] = [''a'', ''b'']"
    by (simp add: TrimSpace_eval)
  have d: "stringsParam_SetMulti [''a'', '' b ''] (\<lparr>into = 0\<rparr>, zeroHeap) = (None, (\<lparr>into = 1\<rparr>, ?k1))"
    using trimmed_batch [of "[''a'', '' b '']"] trims by (simp add: zeroHeap_def)
  have e: "SetAll stringsParam_Set [''c'', ''d''] (\<lparr>into = 1\<rparr>, ?k1) = (\<lparr>into = 1\<rparr>, ?k2)"
    by (simp add: SetAll_def zeroHeap_def)
  from a b c d e
    SetMulti_redirects_into [where ia = "\<lparr>into = 0\<rparr>" and h = zeroHeap
      and vs = "[''1'', ''  '', ''2'']" and ib = "\<lparr>into = 1\<rparr>" and hb = ?h1
      and xs = "[''3'']" and ic = "\<lparr>into = 1\<rparr>" and hc = ?h2, THEN conjunct1]
    SetMulti_redirects_into [where sa = "\<lparr>into = 0\<rparr>" and h = zeroHeap
      and vs = "[''a'', '' b '']" and sb = "\<lparr>into = 1\<rparr>" and kb = ?k1
      and xs = "[''c'', ''d'']" and sc = "\<lparr>into = 1\<rparr>" and kc = ?k2, THEN conjunct2]
  show ?thesis by (simp add: zeroHeap_def)
qed

section \<open>Environment fallback: results\<close>

lemma keepsOnError_boolParam: "keepsOnError boolParam_Value"
  by (auto simp: keepsOnError_def boolParam_Value_def split: sum.splits)

lemma keepsOnError_stringParam: "keepsOnError stringParam_Value"
  by (auto simp: keepsOnError_def stringParam_Value_def)

lemma keepsOnError_intParam: "keepsOnError intParam_Value"
  by (auto simp: keepsOnError_def intParam_Value_def split: sum.splits)

lemma keepsOnError_stringsParam: "keepsOnError stringsParam_Value"
  by (auto simp: keepsOnError_def stringsParam_Value_def Let_def)

lemma keepsOnError_intsParam: "keepsOnError intsParam_Value"
  by (auto simp: keepsOnError_def intsParam_Value_def split: sum.splits)

lemma isMultiOf_has_methods: "isMultiOf into' s \<longrightarrow> asMultiValued into' \<noteq> None"
  by (simp add: isMultiOf_def split: option.splits)

lemma envNames_Nil: "envNames [] = []"
  by (simp add: envNames_def Split_def TrimSpace_Nil)

lemma setFromEnv_loop_form:
  "setFromEnv into' envVars env s =
   setFromEnv_loop into' (isMultiOf into' s) env (Split envVars (CHR '' '')) s"
proof (cases "envVars = []")
  case True
  then show ?thesis
    by (simp add: setFromEnv_def Split_def TrimSpace_Nil)
next
  case False
  then show ?thesis
    by (simp add: setFromEnv_def isMultiOf_def)
qed

text \<open>
  Claim C3.  \<open>setFromEnv\<close> always returns, without panic, and what it returns is
  the state alone: no error reaches its caller.  Let the value keep the contract of
  \<open>Set\<close> and \<open>SetMulti\<close> (a call that returns an error changes nothing), as the five
  parameter kinds of the package do.  Then the state returned is the one left by a
  single call: the call for the first candidate, from left to right among those that
  are set to a non-empty value, on which \<open>Set\<close> (\<open>SetMulti\<close> for a multi-valued
  parameter) succeeds.  When there is no such candidate it is the state \<open>setFromEnv\<close>
  was given.
\<close>

theorem setFromEnv_first_success:
  "(\<exists>final. setFromEnv into' envVars env s = Returned final)
   \<and> (keepsOnError into' \<longrightarrow>
      setFromEnv into' envVars env s =
        Returned (case find (\<lambda>v. fst (envCall into' (isMultiOf into' s) v s) = None)
                         (envValues env envVars) of
                    None \<Rightarrow> s
                  | Some v \<Rightarrow> snd (envCall into' (isMultiOf into' s) v s)))
   \<and> keepsOnError boolParam_Value \<and> keepsOnError stringParam_Value
   \<and> keepsOnError intParam_Value \<and> keepsOnError stringsParam_Value
   \<and> keepsOnError intsParam_Value"
proof (intro conjI impI)
  show "\<exists>final. setFromEnv into' envVars env s = Returned final"
    using setFromEnv_loop_returns [OF isMultiOf_has_methods]
    by (simp add: setFromEnv_loop_form)
next
  assume "keepsOnError into'"
  from setFromEnv_loop_find [OF this isMultiOf_has_methods]
  show "setFromEnv into' envVars env s =
        Returned (case find (\<lambda>v. fst (envCall into' (isMultiOf into' s) v s) = None)
                         (envValues env envVars) of
                    None \<Rightarrow> s
                  | Some v \<Rightarrow> snd (envCall into' (isMultiOf into' s) v s))"
    by (simp add: setFromEnv_loop_form envValues_def envNames_def)
qed (rule keepsOnError_boolParam keepsOnError_stringParam keepsOnError_intParam
       keepsOnError_stringsParam keepsOnError_intsParam)+

theorem setFromEnv_first_success_witness:
  "keepsOnError intParam_Value
   \<and> setFromEnv intParam_Value ''A B'' [''B'' \<mapsto> ''5''] (\<lparr>into = 0\<rparr>, zeroHeap)
       = Returned (\<lparr>into = 0\<rparr>, zeroHeap\<lparr>intCells := (intCells zeroHeap)(0 := 5)\<rparr>)
   \<and> setFromEnv intParam_Value ''A B'' [''A'' \<mapsto> ''x'', ''B'' \<mapsto> ''5''] (\<lparr>into = 0\<rparr>, zeroHeap)
       = Returned (\<lparr>into = 0\<rparr>, zeroHeap\<lparr>intCells := (intCells zeroHeap)(0 := 5)\<rparr>)
   \<and> setFromEnv intParam_Value ''A B'' [''A'' \<mapsto> ''7'', ''B'' \<mapsto> ''5''] (\<lparr>into = 0\<rparr>, zeroHeap)
       = Returned (\<lparr>into = 0\<rparr>, zeroHeap\<lparr>intCells := (intCells zeroHeap)(0 := 7)\<rparr>)
   \<and> setFromEnv intParam_Value ''A B'' [''A'' \<mapsto> ''x'', ''B'' \<mapsto> ''y''] (\<lparr>into = 0\<rparr>, zeroHeap)
       = Returned (\<lparr>into = 0\<rparr>, zeroHeap)
   \<and> setFromEnv intParam_Value ''A B'' Map.empty (\<lparr>into = 0\<rparr>, zeroHeap)
       = Returned (\<lparr>into = 0\<rparr>, zeroHeap)"
proof -
  have names: "envNames ''A B'' = [''A'', ''B'']"
    by (simp add: envNames_def Split_def TrimSpace_eval)
  have five: "ParseInt ''5'' = Inr 5" and seven: "ParseInt ''7'' = Inr 7"
    and x: "ParseInt ''x'' = Inl (NumError ''ParseInt'' ''x'' ErrSyntax)"
    and y: "ParseInt ''y'' = Inl (NumError ''ParseInt'' ''y'' ErrSyntax)"
    by (simp_all add: ParseInt_eval)
  note ev = envValues_def names Getenv_def envCall_def isMultiOf_def intParam_Value_def
    five seven x y
  note first = setFromEnv_first_success [THEN conjunct2, THEN conjunct1, THEN mp,
      OF keepsOnError_intParam]
  from keepsOnError_intParam
    first [of "''A B''" "[''B'' \<mapsto> ''5'']"
      "(\<lparr>into = 0\<rparr>, zeroHeap)"]
    first [of "''A B''"
      "[''A'' \<mapsto> ''x'', ''B'' \<mapsto> ''5'']" "(\<lparr>into = 0\<rparr>, zeroHeap)"]
    first [of "''A B''"
      "[''A'' \<mapsto> ''7'', ''B'' \<mapsto> ''5'']" "(\<lparr>into = 0\<rparr>, zeroHeap)"]
    first [of "''A B''"
      "[''A'' \<mapsto> ''x'', ''B'' \<mapsto> ''y'']" "(\<lparr>into = 0\<rparr>, zeroHeap)"]
    first [of "''A B''" Map.empty
      "(\<lparr>into = 0\<rparr>, zeroHeap)"]
  show ?thesis by (simp add: ev)
qed

text \<open>
  Claim C8, as the code has it.  The list of names is split on the space character
  only; each piece is trimmed of white space and the pieces that are empty after
  trimming are skipped: \<open>setFromEnv\<close> looks up the names \<open>envNames envVars\<close>, in order.
  Names separated by several spaces, or by spaces with other white space beside them,
  are the same candidates as with single spaces; names separated by a tab alone are a
  single candidate.
\<close>

theorem setFromEnv_candidate_names:
  "setFromEnv into' envVars env s =
     setFromEnv_loop into' (isMultiOf into' s) env (envNames envVars) s
   \<and> envNames envVars = filter (\<lambda>ev. ev \<noteq> []) (map TrimSpace (Split envVars (CHR '' '')))
   \<and> envNames ''A B'' = [''A'', ''B'']
   \<and> envNames '' A   B '' = [''A'', ''B'']
   \<and> envNames [CHR ''A'', CHR 0x09, CHR '' '', CHR 0x0A, CHR ''B''] = [''A'', ''B'']
   \<and> envNames [CHR ''A'', CHR 0x09, CHR ''B''] = [[CHR ''A'', CHR 0x09, CHR ''B'']]"
proof -
  have "setFromEnv into' envVars env s =
     setFromEnv_loop into' (isMultiOf into' s) env (envNames envVars) s"
    using setFromEnv_loop_names [of into' "isMultiOf into' s" env "Split envVars (CHR '' '')" s]
    by (simp add: setFromEnv_loop_form envNames_def)
  moreover have "envNames ''A B'' = [''A'', ''B'']"
    by (simp add: envNames_def Split_def TrimSpace_eval)
  moreover have "envNames '' A   B '' = [''A'', ''B'']"
    by (simp add: envNames_def Split_def TrimSpace_eval)
  moreover have "envNames [CHR ''A'', CHR 0x09, CHR '' '', CHR 0x0A, CHR ''B''] = [''A'', ''B'']"
    by (simp add: envNames_def Split_def TrimSpace_eval)
  moreover have "envNames [CHR ''A'', CHR 0x09, CHR ''B''] = [[CHR ''A'', CHR 0x09, CHR ''B'']]"
    by (simp add: envNames_def Split_def TrimSpace_eval)
  ultimately show ?thesis by (simp add: envNames_def)
qed

text \<open>
  Claim C8, as the specification words it, fails for names separated by a tab: with
  \<open>A\<close> set to \<open>5\<close>, the list \<open>A B\<close> sets an integer parameter to 5, while the list
  with a tab for the space looks up one variable named by the whole list and leaves
  the parameter as it was.
\<close>

theorem setFromEnv_tab_counterexample:
  "setFromEnv intParam_Value ''A B'' [''A'' \<mapsto> ''5'', ''B'' \<mapsto> ''6''] (\<lparr>into = 0\<rparr>, zeroHeap)
     = Returned (\<lparr>into = 0\<rparr>, zeroHeap\<lparr>intCells := (intCells zeroHeap)(0 := 5)\<rparr>)
   \<and> setFromEnv intParam_Value [CHR ''A'', CHR 0x09, CHR ''B'']
        [''A'' \<mapsto> ''5'', ''B'' \<mapsto> ''6''] (\<lparr>into = 0\<rparr>, zeroHeap)
     = Returned (\<lparr>into = 0\<rparr>, zeroHeap)
   \<and> intCells (zeroHeap\<lparr>intCells := (intCells zeroHeap)(0 := 5)\<rparr>) 0 \<noteq> intCells zeroHeap 0"
proof -
  have five: "ParseInt ''5'' = Inr 5" by (simp add: ParseInt_eval)
  have a: "TrimSpace ''A'' = ''A''" "TrimSpace ''B'' = ''B''"
    "TrimSpace [CHR ''A'', CHR 0x09, CHR ''B''] = [CHR ''A'', CHR 0x09, CHR ''B'']"
    by (simp_all add: TrimSpace_eval)
  show ?thesis
    by (simp add: setFromEnv_def Split_def a Getenv_def intParam_Value_def five zeroHeap_def)
qed

section \<open>Batches of blank elements: results\<close>

lemma spaceEncodings_prefix_free:
  "\<forall>e \<in> set spaceEncodings. \<forall>t \<in> set spaceEncodings. take (length e) t = e \<longrightarrow> e = t"
  by (simp add: spaceEncodings_def)

lemma spaceEncodings_nonempty: "\<forall>e \<in> set spaceEncodings. e \<noteq> []"
  by (simp add: spaceEncodings_def)

lemma spaceEncodings_no_comma: "\<forall>e \<in> set spaceEncodings. CHR '','' \<notin> set e"
  by (simp add: spaceEncodings_def)

lemma space_prefix_unique:
  assumes e: "e \<in> set spaceEncodings" and t: "t \<in> set spaceEncodings"
    and p: "take (length e) (t @ r) = e"
  shows "e = t"
proof (cases "length e \<le> length t")
  case True
  with p have "take (length e) t = e" by simp
  with e t spaceEncodings_prefix_free show ?thesis by blast
next
  case False
  from p have "take (length t) (take (length e) (t @ r)) = take (length t) e" by simp
  with False have "take (length t) e = t" by (simp add: min_def)
  with e t spaceEncodings_prefix_free show ?thesis by metis
qed

lemma matchLen_space:
  assumes t: "t \<in> set spaceEncodings"
  shows "matchLen spaceEncodings (t @ r) = length t"
proof -
  let ?P = "\<lambda>e. e \<noteq> [] \<and> take (length e) (t @ r) = e"
  from t spaceEncodings_nonempty have "?P t" by simp
  with t have "find ?P spaceEncodings \<noteq> None" by (auto simp: find_None_iff)
  then obtain e where f: "find ?P spaceEncodings = Some e" by blast
  then have "e \<in> set spaceEncodings" "take (length e) (t @ r) = e"
    by (auto simp: find_Some_iff)
  with t have "e = t" using space_prefix_unique by blast
  with f show ?thesis by (simp add: matchLen_def)
qed

lemma matchLen_empty: "matchLen encs [] = 0"
  by (simp add: matchLen_zero_iff)

lemma stripLeading_empty: "stripLeading encs [] = []"
  by (simp add: stripLeading_fix matchLen_empty)

lemma stripLeading_spaces:
  "set ws \<subseteq> set spaceEncodings \<Longrightarrow> stripLeading spaceEncodings (concat ws) = []"
proof (induction ws)
  case Nil
  show ?case by (simp add: stripLeading_empty)
next
  case (Cons w ws)
  then have w: "w \<in> set spaceEncodings" by simp
  then have n: "matchLen spaceEncodings (w @ concat ws) = length w" by (rule matchLen_space)
  from w spaceEncodings_nonempty have "length w \<noteq> 0" by simp
  with n Cons show ?case
    by (simp add: stripLeading.simps [of spaceEncodings "w @ concat ws"])
qed

lemma TrimSpace_blank: "blank s \<Longrightarrow> TrimSpace s = []"
  by (auto simp: blank_def TrimSpace_def stripLeading_spaces stripLeading_empty)

lemma splitFrom_no_sep:
  "sep \<notin> set e \<Longrightarrow> splitFrom sep cur (e @ r) = splitFrom sep (cur @ e) r"
  by (induction e arbitrary: cur) auto

lemma splitFrom_blank:
  assumes "\<forall>t \<in> set ts. t = '','' \<or> t \<in> set spaceEncodings" and "blank cur"
  shows "\<forall>p \<in> set (splitFrom (CHR '','') cur (concat ts)). blank p"
  using assms
proof (induction ts arbitrary: cur)
  case Nil
  then show ?case by simp
next
  case (Cons t ts)
  then have rest: "\<forall>t \<in> set ts. t = '','' \<or> t \<in> set spaceEncodings" by simp
  show ?case
  proof (cases "t = '',''")
    case True
    have "blank []" by (auto simp: blank_def intro: exI [of _ "[]"])
    from Cons.IH [OF rest this] True Cons.prems(2) show ?thesis by simp
  next
    case False
    with Cons.prems have t: "t \<in> set spaceEncodings" by simp
    with spaceEncodings_no_comma have "CHR '','' \<notin> set t" by blast
    then have step: "splitFrom (CHR '','') cur (t @ concat ts)
                   = splitFrom (CHR '','') (cur @ t) (concat ts)"
      by (rule splitFrom_no_sep)
    from Cons.prems(2) obtain ws where "cur = concat ws" "set ws \<subseteq> set spaceEncodings"
      by (auto simp: blank_def)
    with t have "cur @ t = concat (ws @ [t])" "set (ws @ [t]) \<subseteq> set spaceEncodings" by simp_all
    then have "blank (cur @ t)" unfolding blank_def by blast
    from Cons.IH [OF rest this] step show ?thesis by simp
  qed
qed

lemma Split_commas_spaces:
  assumes "\<forall>t \<in> set ts. t = '','' \<or> t \<in> set spaceEncodings"
  shows "\<forall>p \<in> set (Split (concat ts) (CHR '','')). TrimSpace p = []"
proof -
  have "blank []" by (auto simp: blank_def intro: exI [of _ "[]"])
  from splitFrom_blank [OF assms this] show ?thesis
    by (simp add: Split_def TrimSpace_blank)
qed

lemma intsParam_SetMulti_blank:
  assumes "\<forall>v \<in> set vs. TrimSpace v = []"
  shows "intsParam_SetMulti vs (ia, h) =
           (None, (ia\<lparr>into := intsFree h\<rparr>,
                   h\<lparr>intsCells := (intsCells h)(intsFree h := []),
                     intsFree := Suc (intsFree h)\<rparr>))"
proof -
  from assms have "trimmedNonEmpty vs = []"
    by (auto simp: trimmedNonEmpty_def filter_empty_conv)
  then have "map ParseInt (trimmedNonEmpty vs) = map Inr []" by simp
  from intsParam_SetMulti_loop_Inr [OF this, of "[]"] show ?thesis by simp
qed

text \<open>
  Claim C10.  When every element of a batch is empty after trimming (the empty batch
  included), \<open>SetMulti\<close> of a repeated-integer parameter succeeds and the parameter's
  sequence is empty.  So when the first candidate of \<open>setFromEnv\<close> that has a value
  splits on commas into such a batch, the scan ends there, with the empty sequence,
  whatever the later candidates hold.  A value made of commas and white space only
  splits into such a batch.
\<close>

theorem intsParam_blank_batch_succeeds:
  "((\<forall>p \<in> set vs. TrimSpace p = []) \<longrightarrow>
      intsParam_SetMulti vs (ia, h) =
        (None, (ia\<lparr>into := intsFree h\<rparr>,
                h\<lparr>intsCells := (intsCells h)(intsFree h := []),
                  intsFree := Suc (intsFree h)\<rparr>)))
   \<and> (envValues env envVars = v # others \<and> (\<forall>p \<in> set (Split v (CHR '','')). TrimSpace p = []) \<longrightarrow>
      setFromEnv intsParam_Value envVars env (ia, h) =
        Returned (ia\<lparr>into := intsFree h\<rparr>,
                  h\<lparr>intsCells := (intsCells h)(intsFree h := []),
                    intsFree := Suc (intsFree h)\<rparr>))
   \<and> ((\<forall>t \<in> set ts. t = '','' \<or> t \<in> set spaceEncodings) \<longrightarrow>
      (\<forall>p \<in> set (Split (concat ts) (CHR '','')). TrimSpace p = []))"
proof (intro conjI impI)
  assume "\<forall>p \<in> set vs. TrimSpace p = []"
  then show "intsParam_SetMulti vs (ia, h) =
        (None, (ia\<lparr>into := intsFree h\<rparr>,
                h\<lparr>intsCells := (intsCells h)(intsFree h := []),
                  intsFree := Suc (intsFree h)\<rparr>))"
    by (rule intsParam_SetMulti_blank)
next
  assume a: "envValues env envVars = v # others
             \<and> (\<forall>p \<in> set (Split v (CHR '','')). TrimSpace p = [])"
  have multi: "isMultiOf intsParam_Value (ia, h)"
    by (simp add: isMultiOf_def intsParam_Value_def intsParam_IsMultiValued_def)
  from a have call: "envCall intsParam_Value True v (ia, h) =
        (None, (ia\<lparr>into := intsFree h\<rparr>,
                h\<lparr>intsCells := (intsCells h)(intsFree h := []),
                  intsFree := Suc (intsFree h)\<rparr>))"
    using intsParam_SetMulti_blank [of "Split v (CHR '','')" ia h]
    by (simp add: envCall_def intsParam_Value_def)
  have "setFromEnv_loop intsParam_Value True env (Split envVars (CHR '' '')) (ia, h) =
        Returned (ia\<lparr>into := intsFree h\<rparr>,
                  h\<lparr>intsCells := (intsCells h)(intsFree h := []),
                    intsFree := Suc (intsFree h)\<rparr>)"
  proof (rule setFromEnv_loop_first [OF _ _ call])
    from a show "filter (\<lambda>v. v \<noteq> []) (map (Getenv env)
        (filter (\<lambda>ev. ev \<noteq> []) (map TrimSpace (Split envVars (CHR '' ''))))) = v # others"
      by (simp add: envValues_def envNames_def)
    show "True \<longrightarrow> asMultiValued intsParam_Value \<noteq> None"
      by (simp add: intsParam_Value_def)
  qed
  with multi show "setFromEnv intsParam_Value envVars env (ia, h) =
        Returned (ia\<lparr>into := intsFree h\<rparr>,
                  h\<lparr>intsCells := (intsCells h)(intsFree h := []),
                    intsFree := Suc (intsFree h)\<rparr>)"
    by (simp add: setFromEnv_loop_form)
next
  assume "\<forall>t \<in> set ts. t = '','' \<or> t \<in> set spaceEncodings"
  then show "\<forall>p \<in> set (Split (concat ts) (CHR '','')). TrimSpace p = []"
    by (rule Split_commas_spaces)
qed

theorem intsParam_blank_batch_succeeds_witness:
  "map TrimSpace [''  '', []] = [[], []]
   \<and> intsParam_SetMulti [''  '', []] (\<lparr>into = 0\<rparr>, zeroHeap)
       = (None, (\<lparr>into = 1\<rparr>, zeroHeap\<lparr>intsCells := (intsCells zeroHeap)(1 := []), intsFree := 2\<rparr>))
   \<and> intsParam_SetMulti [] (\<lparr>into = 0\<rparr>, zeroHeap)
       = (None, (\<lparr>into = 1\<rparr>, zeroHeap\<lparr>intsCells := (intsCells zeroHeap)(1 := []), intsFree := 2\<rparr>))
   \<and> envValues [''A'' \<mapsto> '' , ,'', ''B'' \<mapsto> ''1,2''] ''A B'' = ['' , ,'', ''1,2'']
   \<and> map TrimSpace (Split '' , ,'' (CHR '','')) = [[], [], []]
   \<and> setFromEnv intsParam_Value ''A B'' [''A'' \<mapsto> '' , ,'', ''B'' \<mapsto> ''1,2'']
         (\<lparr>into = 0\<rparr>, zeroHeap)
       = Returned (\<lparr>into = 1\<rparr>,
                   zeroHeap\<lparr>intsCells := (intsCells zeroHeap)(1 := []), intsFree := 2\<rparr>)
   \<and> concat ['' '', '','', '' '', '',''] = '' , ,''
   \<and> '' '' \<in> set spaceEncodings"
proof -
  have trims: "map TrimSpace [''  '', []] = [[], []]"
    by (simp add: TrimSpace_eval)
  have vals: "envValues [''A'' \<mapsto> '' , ,'', ''B'' \<mapsto> ''1,2''] ''A B'' = ['' , ,'', ''1,2'']"
    by (simp add: envValues_def envNames_def Split_def Getenv_def TrimSpace_eval)
  have pieces: "map TrimSpace (Split '' , ,'' (CHR '','')) = [[], [], []]"
    by (simp add: Split_def TrimSpace_eval)
  have sp: "'' '' \<in> set spaceEncodings" by (simp add: spaceEncodings_def)
  have h: "\<forall>p \<in> set [''  '', []]. TrimSpace p = []" using trims by simp
  have h0: "\<forall>p \<in> set ([] :: string list). TrimSpace p = []" by simp
  have hp: "\<forall>p \<in> set (Split '' , ,'' (CHR '','')). TrimSpace p = []"
    using pieces by (simp add: Split_def)
  have ht: "\<forall>t \<in> set ['' '', '','', '' '', '','']. t = '','' \<or> t \<in> set spaceEncodings"
    using sp by simp
  note thm1 = intsParam_blank_batch_succeeds [where vs = "[''  '', []]" and ia = "\<lparr>into = 0\<rparr>"
      and h = zeroHeap, THEN conjunct1, THEN mp, OF h]
  note thm2 = intsParam_blank_batch_succeeds [where vs = "[]" and ia = "\<lparr>into = 0\<rparr>"
      and h = zeroHeap, THEN conjunct1, THEN mp, OF h0]
  note thm3 = intsParam_blank_batch_succeeds [where env = "[''A'' \<mapsto> '' , ,'', ''B'' \<mapsto> ''1,2'']"
      and envVars = "''A B''" and v = "'' , ,''" and others = "[''1,2'']" and ia = "\<lparr>into = 0\<rparr>"
      and h = zeroHeap, THEN conjunct2, THEN conjunct1, THEN mp, OF conjI [OF vals hp]]
  note thm4 = intsParam_blank_batch_succeeds [where ts = "['' '', '','', '' '', '','']",
      THEN conjunct2, THEN conjunct2, THEN mp, OF ht]
  from trims vals pieces sp thm1 thm2 thm3 thm4
  show ?thesis by (simp add: zeroHeap_def)
qed

end
